theory Spec2Isabelle
  imports Main "HOL-Library.Word"
begin

unbundle bit_operations_syntax

section \<open>The screen of gui.c: pixel buffer, glyph packing, status codes\<close>

text \<open>
  The development embeds the Screen part of \<^verbatim>\<open>gui.c\<close>: the glyph table and
  \<^verbatim>\<open>boolsToInt\<close>, the combined status/data return value, \<^verbatim>\<open>initScreen\<close>,
  \<^verbatim>\<open>resizeScreen\<close>, \<^verbatim>\<open>getScreenPixel\<close>, \<^verbatim>\<open>setScreenPixel\<close>,
  \<^verbatim>\<open>renderScreen\<close> and the table lookups of \<^verbatim>\<open>printScreen\<close>.
  A \<^verbatim>\<open>uint8_t\<close> is an \<open>8 word\<close>, a \<^verbatim>\<open>uint16_t\<close> a \<open>16 word\<close>; C's \<^verbatim>\<open>int\<close>
  arithmetic on promoted bytes stays below 65536 here, within an \<^verbatim>\<open>int\<close> of 32
  bits, and is written on \<open>nat\<close>, with the conversions back to a byte or to a
  \<^verbatim>\<open>uint16_t\<close> written out.
  The writes to \<^verbatim>\<open>stderr\<close> are not part of the model.
\<close>

type_synonym u8 = "8 word"
type_synonym u16 = "16 word"

subsection \<open>Glyph table and bit packing\<close>

text \<open>
  \<^verbatim>\<open>const char* char_map[64]\<close>: every entry is a string of one character, given
  here by its Unicode code point, in the order of the source.
\<close>

definition char_map :: "nat list" where
  "char_map =
    [0x20, 0x1CE70, 0x1CE60, 0x1CE80, 0x1CE58, 0x1CE78, 0x1CE68, 0x1CE88,
     0x1CE54, 0x1CE74, 0x1CE64, 0x1CE84, 0x1CE5C, 0x1CE7C, 0x1CE6C, 0x1CE8C,
     0x1CE52, 0x1CE72, 0x1CE62, 0x1CE82, 0x1CE5A, 0x1CE7A, 0x1CE6A, 0x1CE8A,
     0x1CE56, 0x1CE76, 0x1CE66, 0x1CE86, 0x1CE5E, 0x1CE7E, 0x1CE6E, 0x1CE8E,
     0x1CE51, 0x1CE71, 0x1CE61, 0x1CE81, 0x1CE59, 0x1CE79, 0x1CE69, 0x1CE89,
     0x1CE55, 0x1CE75, 0x1CE65, 0x1CE85, 0x1CE5D, 0x1CE7D, 0x1CE6D, 0x1CE8D,
     0x1CE53, 0x1CE73, 0x1CE63, 0x1CE83, 0x1CE5B, 0x1CE7B, 0x1CE6B, 0x1CE8B,
     0x1CE57, 0x1CE77, 0x1CE67, 0x1CE87, 0x1CE5F, 0x1CE7F, 0x1CE6F, 0x1CE8F]"

text \<open>
  \<^verbatim>\<open>boolsToInt\<close>: \<^verbatim>\<open>for (i = 0; i < 6; i++) result = (result << 1) | (uint8_t) arr[i];\<close>
  The array \<^verbatim>\<open>bool arr[6]\<close> is a list; the loop reads \<open>arr ! i\<close> for \<open>i = 0..5\<close>.
  The assignment converts the \<^verbatim>\<open>int\<close> result back to a byte, which is what the
  operations on \<open>8 word\<close> do.
\<close>

definition boolsToInt :: "bool list \<Rightarrow> u8" where
  "boolsToInt arr =
     fold (\<lambda>i result. push_bit 1 result OR of_bool (arr ! i)) [0..<6] 0"

subsection \<open>Status codes and the combined return value\<close>

definition SCREEN_READY :: u8 where "SCREEN_READY = 1"
definition SCREEN_SUCCESS :: u8 where "SCREEN_SUCCESS = 2"
definition SCREEN_ERROR :: u8 where "SCREEN_ERROR = 4"

definition SCREEN_SUCCESS_BIT :: u16 where
  "SCREEN_SUCCESS_BIT = push_bit 8 (ucast SCREEN_SUCCESS)"

definition joinReturn :: "u8 \<Rightarrow> u8 \<Rightarrow> u16" where
  "joinReturn st dt = push_bit 8 (ucast st) OR ucast dt"

definition returnError :: "u16 \<Rightarrow> u8" where
  "returnError v =
     (if v AND 0xFF00 = SCREEN_SUCCESS_BIT then 0 else ucast (drop_bit 8 v))"

definition returnData :: "u16 \<Rightarrow> u8" where
  "returnData v = ucast (v AND 0x00FF)"

subsection \<open>Memory: \<^verbatim>\<open>calloc\<close> and \<^verbatim>\<open>free\<close>\<close>

text \<open>
  The two arrays of a screen live in allocated memory. A heap is the list of all
  blocks ever allocated, a block's address being its position; a freed block is
  \<open>None\<close>, and an address is never given out twice. \<open>outcomes\<close> holds what the
  coming calls of \<^verbatim>\<open>calloc\<close> will answer (\<open>False\<close>: a null pointer), one entry
  per call; once the list is used up every call succeeds. A pointer is
  \<open>nat option\<close>, \<open>None\<close> being \<^verbatim>\<open>NULL\<close>.
  Reading or writing through a null or dangling pointer, or beyond the end of a
  block, and freeing a block that is not allocated, are undefined behaviour in C:
  the model returns \<open>Inl MemFault\<close> there.
\<close>

datatype block = Bools "bool list" | Bytes "u8 list"

datatype fault = MemFault

record heap =
  blocks :: "block option list"
  outcomes :: "bool list"

definition lookup :: "heap \<Rightarrow> nat \<Rightarrow> block option" where
  "lookup hp a = (if a < length (blocks hp) then blocks hp ! a else None)"

definition calloc_m :: "block \<Rightarrow> heap \<Rightarrow> nat option \<times> heap" where
  "calloc_m zeroed hp =
     (case outcomes hp of
        False # rest \<Rightarrow> (None, hp\<lparr>outcomes := rest\<rparr>)
      | _ \<Rightarrow> (Some (length (blocks hp)),
              hp\<lparr>blocks := blocks hp @ [Some zeroed], outcomes := tl (outcomes hp)\<rparr>))"

definition free_m :: "nat option \<Rightarrow> heap \<Rightarrow> fault + heap" where
  "free_m p hp =
     (case p of
        None \<Rightarrow> Inr hp
      | Some a \<Rightarrow>
          (case lookup hp a of
             None \<Rightarrow> Inl MemFault
           | Some b \<Rightarrow> Inr (hp\<lparr>blocks := (blocks hp)[a := None]\<rparr>)))"

definition read_bool :: "heap \<Rightarrow> nat option \<Rightarrow> nat \<Rightarrow> fault + bool" where
  "read_bool hp p i =
     (case p of
        None \<Rightarrow> Inl MemFault
      | Some a \<Rightarrow>
          (case lookup hp a of
             Some (Bools d) \<Rightarrow> if i < length d then Inr (d ! i) else Inl MemFault
           | _ \<Rightarrow> Inl MemFault))"

definition write_bool :: "heap \<Rightarrow> nat option \<Rightarrow> nat \<Rightarrow> bool \<Rightarrow> fault + heap" where
  "write_bool hp p i v =
     (case p of
        None \<Rightarrow> Inl MemFault
      | Some a \<Rightarrow>
          (case lookup hp a of
             Some (Bools d) \<Rightarrow>
               if i < length d
               then Inr (hp\<lparr>blocks := (blocks hp)[a := Some (Bools (d[i := v]))]\<rparr>)
               else Inl MemFault
           | _ \<Rightarrow> Inl MemFault))"

definition read_byte :: "heap \<Rightarrow> nat option \<Rightarrow> nat \<Rightarrow> fault + u8" where
  "read_byte hp p i =
     (case p of
        None \<Rightarrow> Inl MemFault
      | Some a \<Rightarrow>
          (case lookup hp a of
             Some (Bytes r) \<Rightarrow> if i < length r then Inr (r ! i) else Inl MemFault
           | _ \<Rightarrow> Inl MemFault))"

definition write_byte :: "heap \<Rightarrow> nat option \<Rightarrow> nat \<Rightarrow> u8 \<Rightarrow> fault + heap" where
  "write_byte hp p i v =
     (case p of
        None \<Rightarrow> Inl MemFault
      | Some a \<Rightarrow>
          (case lookup hp a of
             Some (Bytes r) \<Rightarrow>
               if i < length r
               then Inr (hp\<lparr>blocks := (blocks hp)[a := Some (Bytes (r[i := v]))]\<rparr>)
               else Inl MemFault
           | _ \<Rightarrow> Inl MemFault))"

text \<open>Sequencing of steps that may fault, and a \<^verbatim>\<open>for\<close> loop over a fixed range.\<close>

definition bindF :: "fault + 'a \<Rightarrow> ('a \<Rightarrow> fault + 'b) \<Rightarrow> fault + 'b" where
  "bindF m f = (case m of Inl e \<Rightarrow> Inl e | Inr a \<Rightarrow> f a)"

fun for_loop :: "nat list \<Rightarrow> (nat \<Rightarrow> 's \<Rightarrow> fault + 's) \<Rightarrow> 's \<Rightarrow> fault + 's" where
  "for_loop [] body st = Inr st"
| "for_loop (i # rest) body st = bindF (body i st) (for_loop rest body)"

subsection \<open>The Screen struct and its operations\<close>

record screen =
  status :: u8
  width :: u8
  height :: u8
  flags :: u8
  data :: "nat option"
  render :: "nat option"

text \<open>
  The number of pixels \<^verbatim>\<open>width * height\<close> and of glyph cells
  \<^verbatim>\<open>((width/2)+1) * ((height/3)+1)\<close>, as \<^verbatim>\<open>initScreen\<close> and \<^verbatim>\<open>resizeScreen\<close>
  compute them in \<^verbatim>\<open>int\<close> from bytes (at most 65025 and 11008).
\<close>

definition pixel_count :: "u8 \<Rightarrow> u8 \<Rightarrow> nat" where
  "pixel_count w ht = unat w * unat ht"

definition glyph_count :: "u8 \<Rightarrow> u8 \<Rightarrow> nat" where
  "glyph_count w ht = (unat w div 2 + 1) * (unat ht div 3 + 1)"

text \<open>
  A screen is passed as \<^verbatim>\<open>Screen *scr\<close>: \<open>None\<close> is the null pointer, \<open>Some s\<close>
  a pointer to the struct \<open>s\<close>; every operation returns the struct as it leaves it.
\<close>

definition initScreen ::
  "screen option \<Rightarrow> heap \<Rightarrow> u8 \<Rightarrow> u8 \<Rightarrow> u8 \<Rightarrow> u16 \<times> screen option \<times> heap" where
  "initScreen scr hp fl w ht =
     (case scr of
        None \<Rightarrow> (0, None, hp)
      | Some s \<Rightarrow>
          (let (d, hp1) = calloc_m (Bools (replicate (pixel_count w ht) False)) hp;
               (r, hp2) = calloc_m (Bytes (replicate (glyph_count w ht) 0)) hp1;
               s' = s\<lparr>status := SCREEN_READY, flags := fl, width := w, height := ht,
                      data := d, render := r\<rparr>;
               ret = (if d = None \<or> r = None then SCREEN_ERROR else SCREEN_SUCCESS)
           in (joinReturn ret 0, Some s', hp2)))"

definition resizeScreen ::
  "screen option \<Rightarrow> heap \<Rightarrow> u8 \<Rightarrow> u8 \<Rightarrow> fault + (u16 \<times> screen option \<times> heap)" where
  "resizeScreen scr hp w ht =
     (case scr of
        None \<Rightarrow> Inr (joinReturn SCREEN_ERROR 0, None, hp)
      | Some s \<Rightarrow>
          bindF (if data s \<noteq> None
                 then bindF (free_m (data s) hp) (free_m (render s))
                 else Inr hp)
            (\<lambda>hp0.
               let (d, hp1) = calloc_m (Bools (replicate (pixel_count w ht) False)) hp0;
                   (r, hp2) = calloc_m (Bytes (replicate (glyph_count w ht) 0)) hp1;
                   s' = s\<lparr>width := w, height := ht, data := d, render := r\<rparr>;
                   ret = (if d = None \<or> r = None then SCREEN_ERROR else SCREEN_SUCCESS)
               in Inr (joinReturn ret 0, Some s', hp2)))"

definition getScreenPixel ::
  "screen option \<Rightarrow> heap \<Rightarrow> u8 \<Rightarrow> u8 \<Rightarrow> fault + (bool \<times> screen option \<times> heap)" where
  "getScreenPixel scr hp x y =
     (case scr of
        None \<Rightarrow> Inr (False, None, hp)
      | Some s \<Rightarrow>
          if status s \<noteq> SCREEN_READY
          then (let (ret, scr', hp') = initScreen scr hp 0 20 20 in Inr (False, scr', hp'))
          else if x \<ge> width s \<or> y \<ge> height s then Inr (False, scr, hp)
          else bindF (read_bool hp (data s) (unat y * unat (width s) + unat x))
                 (\<lambda>b. Inr (b, scr, hp)))"

definition setScreenPixel ::
  "screen option \<Rightarrow> heap \<Rightarrow> u8 \<Rightarrow> u8 \<Rightarrow> bool \<Rightarrow> fault + (u16 \<times> screen option \<times> heap)" where
  "setScreenPixel scr hp x y v =
     (case scr of
        None \<Rightarrow> Inr (joinReturn SCREEN_ERROR 0, None, hp)
      | Some s \<Rightarrow>
          if status s \<noteq> SCREEN_READY
          then (let (ret, scr', hp') = initScreen scr hp 0 20 20
                in Inr (joinReturn SCREEN_ERROR 0, scr', hp'))
          else if x \<ge> width s \<or> y \<ge> height s then Inr (0, scr, hp)
          else bindF (write_bool hp (data s) (unat y * unat (width s) + unat x) v)
                 (\<lambda>hp'. Inr (joinReturn SCREEN_SUCCESS 0, scr, hp')))"

text \<open>
  The body of the two loops of \<^verbatim>\<open>renderScreen\<close>, for the \<^verbatim>\<open>int\<close> counters \<open>x\<close> and
  \<open>y\<close> and the local byte \<open>gw\<close> (\<^verbatim>\<open>width\<close>). The six coordinates are computed in
  \<^verbatim>\<open>int\<close> and converted to the \<^verbatim>\<open>uint8_t\<close> parameters of \<^verbatim>\<open>getScreenPixel\<close>
  (\<open>of_nat\<close>, which reduces modulo 256); \<^verbatim>\<open>index\<close> is a \<^verbatim>\<open>uint16_t\<close>. Each call
  of \<^verbatim>\<open>getScreenPixel\<close> may change the struct and the heap, so both are threaded
  through; the store goes through the \<^verbatim>\<open>render\<close> pointer the struct holds then.
\<close>

definition renderCell ::
  "u8 \<Rightarrow> nat \<Rightarrow> nat \<Rightarrow> screen option \<times> heap \<Rightarrow> fault + (screen option \<times> heap)" where
  "renderCell gw y x st =
     (let index = (of_nat (y * unat gw + x) :: u16) in
      bindF (getScreenPixel (fst st) (snd st) (of_nat (x * 2 + 0)) (of_nat (y * 3 + 0)))
       (\<lambda>(i0, scr0, hp0).
      bindF (getScreenPixel scr0 hp0 (of_nat (x * 2 + 1)) (of_nat (y * 3 + 0)))
       (\<lambda>(i1, scr1, hp1).
      bindF (getScreenPixel scr1 hp1 (of_nat (x * 2 + 0)) (of_nat (y * 3 + 1)))
       (\<lambda>(i2, scr2, hp2).
      bindF (getScreenPixel scr2 hp2 (of_nat (x * 2 + 1)) (of_nat (y * 3 + 1)))
       (\<lambda>(i3, scr3, hp3).
      bindF (getScreenPixel scr3 hp3 (of_nat (x * 2 + 0)) (of_nat (y * 3 + 2)))
       (\<lambda>(i4, scr4, hp4).
      bindF (getScreenPixel scr4 hp4 (of_nat (x * 2 + 1)) (of_nat (y * 3 + 2)))
       (\<lambda>(i5, scr5, hp5).
         case scr5 of
           None \<Rightarrow> Inl MemFault
         | Some s \<Rightarrow>
             bindF (write_byte hp5 (render s) (unat index)
                      (boolsToInt [i0, i1, i2, i3, i4, i5]))
               (\<lambda>hp6. Inr (scr5, hp6)))))))))"

definition renderScreen :: "screen option \<Rightarrow> heap \<Rightarrow> fault + (screen option \<times> heap)" where
  "renderScreen scr hp =
     (case scr of
        None \<Rightarrow> Inl MemFault
      | Some s \<Rightarrow>
          (let gw = width s div 2 + 1;
               gh = height s div 3 + 1
           in for_loop [0..<unat gh]
                (\<lambda>y. for_loop [0..<unat gw] (\<lambda>x. renderCell gw y x)) (scr, hp)))"

text \<open>
  \<^verbatim>\<open>printScreen\<close>, as far as the table is concerned: every row is the list of the
  glyphs \<^verbatim>\<open>char_map[scr->render[index]]\<close> appended to \<^verbatim>\<open>buf\<close>, and a read outside
  the 64 entries of the table is a fault. The cursor movement and the flush are
  left out.
\<close>

definition glyph_at :: "nat \<Rightarrow> fault + nat" where
  "glyph_at i = (if i < length char_map then Inr (char_map ! i) else Inl MemFault)"

fun printRow :: "heap \<Rightarrow> nat option \<Rightarrow> u8 \<Rightarrow> nat \<Rightarrow> nat list \<Rightarrow> fault + nat list" where
  "printRow hp rp gw y [] = Inr []"
| "printRow hp rp gw y (x # rest) =
     bindF (read_byte hp rp (unat (of_nat (y * unat gw + x) :: u16)))
       (\<lambda>c. bindF (glyph_at (unat c))
         (\<lambda>g. bindF (printRow hp rp gw y rest) (\<lambda>gs. Inr (g # gs))))"

fun printRows :: "heap \<Rightarrow> nat option \<Rightarrow> u8 \<Rightarrow> u8 \<Rightarrow> nat list \<Rightarrow> fault + nat list list" where
  "printRows hp rp gw gh [] = Inr []"
| "printRows hp rp gw gh (y # rest) =
     bindF (printRow hp rp gw y [0..<unat gw])
       (\<lambda>row. bindF (printRows hp rp gw gh rest) (\<lambda>rows. Inr (row # rows)))"

definition printScreen :: "screen option \<Rightarrow> heap \<Rightarrow> fault + nat list list" where
  "printScreen scr hp =
     (case scr of
        None \<Rightarrow> Inl MemFault
      | Some s \<Rightarrow>
          (let gw = width s div 2 + 1;
               gh = height s div 3 + 1
           in printRows hp (render s) gw gh [0..<unat gh]))"

subsection \<open>Well-formed screens and auxiliary notions of the statements\<close>

text \<open>
  A screen is well formed on a heap when both of its arrays are allocated with the
  sizes \<^verbatim>\<open>initScreen\<close> gives them: \<open>width * height\<close> pixels and
  \<open>((width/2)+1) * ((height/3)+1)\<close> glyph cells. A successful \<^verbatim>\<open>initScreen\<close> or
  \<^verbatim>\<open>resizeScreen\<close> establishes this, and \<^verbatim>\<open>setScreenPixel\<close> and
  \<^verbatim>\<open>renderScreen\<close> keep it.
\<close>

definition screen_ok :: "screen \<Rightarrow> heap \<Rightarrow> bool" where
  "screen_ok s hp =
     (case data s of
        None \<Rightarrow> False
      | Some da \<Rightarrow>
          (case render s of
             None \<Rightarrow> False
           | Some ra \<Rightarrow>
               (case lookup hp da of
                  Some (Bools d) \<Rightarrow>
                    (case lookup hp ra of
                       Some (Bytes r) \<Rightarrow>
                         length d = pixel_count (width s) (height s) \<and>
                         length r = glyph_count (width s) (height s)
                     | _ \<Rightarrow> False)
                | _ \<Rightarrow> False)))"

text \<open>The pixel array and the glyph array a screen points to (empty when there is none).\<close>

definition pixels_of :: "screen \<Rightarrow> heap \<Rightarrow> bool list" where
  "pixels_of s hp =
     (case data s of
        None \<Rightarrow> []
      | Some da \<Rightarrow> (case lookup hp da of Some (Bools d) \<Rightarrow> d | _ \<Rightarrow> []))"

definition cells_of :: "screen \<Rightarrow> heap \<Rightarrow> u8 list" where
  "cells_of s hp =
     (case render s of
        None \<Rightarrow> []
      | Some ra \<Rightarrow> (case lookup hp ra of Some (Bytes r) \<Rightarrow> r | _ \<Rightarrow> []))"

text \<open>
  The pixel at mathematical coordinates: \<open>False\<close> outside the buffer, the stored
  value inside. This is the reading the specification gives of a coordinate that
  lies beyond the edge.
\<close>

definition pixel_at :: "screen \<Rightarrow> heap \<Rightarrow> nat \<Rightarrow> nat \<Rightarrow> bool" where
  "pixel_at s hp x y =
     (if x \<ge> unat (width s) \<or> y \<ge> unat (height s) then False
      else pixels_of s hp ! (y * unat (width s) + x))"

text \<open>The inverse of the packing: the six bits of a byte, bit 5 first.\<close>

definition unpack :: "u8 \<Rightarrow> bool list" where
  "unpack w = [bit w 5, bit w 4, bit w 3, bit w 2, bit w 1, bit w 0]"

text \<open>
  Replacing the contents of the glyph array or of the pixel array of a screen, and the byte that
  \<^verbatim>\<open>renderScreen\<close> computes for the block \<open>(bx, by)\<close>: the pack of the six pixels
  at the coordinates the calls of \<^verbatim>\<open>getScreenPixel\<close> receive, that is after their
  conversion to \<^verbatim>\<open>uint8_t\<close>.
\<close>

definition set_cells :: "screen \<Rightarrow> heap \<Rightarrow> u8 list \<Rightarrow> heap" where
  "set_cells s hp r =
     (case render s of
        None \<Rightarrow> hp
      | Some ra \<Rightarrow> hp\<lparr>blocks := (blocks hp)[ra := Some (Bytes r)]\<rparr>)"

definition set_pixels :: "screen \<Rightarrow> heap \<Rightarrow> bool list \<Rightarrow> heap" where
  "set_pixels s hp d =
     (case data s of
        None \<Rightarrow> hp
      | Some da \<Rightarrow> hp\<lparr>blocks := (blocks hp)[da := Some (Bools d)]\<rparr>)"

definition cell_value :: "screen \<Rightarrow> heap \<Rightarrow> nat \<Rightarrow> nat \<Rightarrow> u8" where
  "cell_value s hp bx by =
     boolsToInt
       [pixel_at s hp (unat (of_nat (bx * 2 + 0) :: u8)) (unat (of_nat (by * 3 + 0) :: u8)),
        pixel_at s hp (unat (of_nat (bx * 2 + 1) :: u8)) (unat (of_nat (by * 3 + 0) :: u8)),
        pixel_at s hp (unat (of_nat (bx * 2 + 0) :: u8)) (unat (of_nat (by * 3 + 1) :: u8)),
        pixel_at s hp (unat (of_nat (bx * 2 + 1) :: u8)) (unat (of_nat (by * 3 + 1) :: u8)),
        pixel_at s hp (unat (of_nat (bx * 2 + 0) :: u8)) (unat (of_nat (by * 3 + 2) :: u8)),
        pixel_at s hp (unat (of_nat (bx * 2 + 1) :: u8)) (unat (of_nat (by * 3 + 2) :: u8))]"

definition rendered_cells :: "screen \<Rightarrow> heap \<Rightarrow> u8 list" where
  "rendered_cells s hp =
     map (\<lambda>i. cell_value s hp (i mod (unat (width s) div 2 + 1))
                               (i div (unat (width s) div 2 + 1)))
       [0..<glyph_count (width s) (height s)]"

subsection \<open>Concrete screens\<close>

text \<open>
  The struct before \<^verbatim>\<open>initScreen\<close> has run on it and a heap with nothing allocated;
  the 2 by 3 screen with every pixel set, as \<^verbatim>\<open>initScreen\<close> followed by six calls
  of \<^verbatim>\<open>setScreenPixel\<close> leaves it; and a screen one pixel wide and 255 pixels
  high whose only set pixel is \<open>(0, 0)\<close>.
\<close>

definition blank_screen :: screen where
  "blank_screen =
     \<lparr>status = 0, width = 0, height = 0, flags = 0, data = None, render = None\<rparr>"

definition empty_heap :: heap where
  "empty_heap = \<lparr>blocks = [], outcomes = []\<rparr>"

definition demo_screen :: screen where
  "demo_screen =
     \<lparr>status = SCREEN_READY, width = 2, height = 3, flags = 0,
      data = Some 0, render = Some 1\<rparr>"

definition demo_heap :: heap where
  "demo_heap =
     \<lparr>blocks = [Some (Bools [True, True, True, True, True, True]),
                Some (Bytes [0, 0, 0, 0])],
      outcomes = []\<rparr>"

definition tall_screen :: screen where
  "tall_screen =
     \<lparr>status = SCREEN_READY, width = 1, height = 255, flags = 0,
      data = Some 0, render = Some 1\<rparr>"

definition tall_heap :: heap where
  "tall_heap =
     \<lparr>blocks = [Some (Bools ((replicate 255 False)[0 := True])),
                Some (Bytes (replicate 86 0))],
      outcomes = []\<rparr>"

text \<open>
  States left by a failed allocation. \<open>failed_screen\<close> on \<open>failed_heap\<close> is what
  \<^verbatim>\<open>initScreen(&scr, 0, 2, 3)\<close> leaves when the \<^verbatim>\<open>calloc\<close> of the pixel array
  returns \<^verbatim>\<open>NULL\<close> and that of the glyph array succeeds. \<open>fresh_heap\<close> is the heap
  after a successful \<^verbatim>\<open>initScreen(&scr, 0, 2, 3)\<close> (its screen is \<open>demo_screen\<close>) on
  which the next \<^verbatim>\<open>calloc\<close> will fail; \<open>half_screen\<close> on \<open>half_heap\<close> is what
  \<^verbatim>\<open>resizeScreen(&scr, 4, 3)\<close> leaves there, and \<open>leaked_screen\<close> on
  \<open>leaked_heap\<close> what a following \<^verbatim>\<open>resizeScreen(&scr, 2, 3)\<close> leaves.
\<close>

definition failed_screen :: screen where
  "failed_screen =
     \<lparr>status = SCREEN_READY, width = 2, height = 3, flags = 0,
      data = None, render = Some 0\<rparr>"

definition failed_heap :: heap where
  "failed_heap = \<lparr>blocks = [Some (Bytes [0, 0, 0, 0])], outcomes = []\<rparr>"

definition fresh_heap :: heap where
  "fresh_heap =
     \<lparr>blocks = [Some (Bools [False, False, False, False, False, False]),
                Some (Bytes [0, 0, 0, 0])],
      outcomes = [False]\<rparr>"

definition half_screen :: screen where
  "half_screen =
     \<lparr>status = SCREEN_READY, width = 4, height = 3, flags = 0,
      data = None, render = Some 2\<rparr>"

definition half_heap :: heap where
  "half_heap =
     \<lparr>blocks = [None, None, Some (Bytes [0, 0, 0, 0, 0, 0])], outcomes = []\<rparr>"

definition leaked_screen :: screen where
  "leaked_screen =
     \<lparr>status = SCREEN_READY, width = 2, height = 3, flags = 0,
      data = Some 3, render = Some 4\<rparr>"

definition leaked_heap :: heap where
  "leaked_heap =
     \<lparr>blocks = [None, None, Some (Bytes [0, 0, 0, 0, 0, 0]),
                Some (Bools [False, False, False, False, False, False]),
                Some (Bytes [0, 0, 0, 0])],
      outcomes = []\<rparr>"

text \<open>
  The value the specification gives to the glyph cell of block \<open>(bx, by)\<close>: the
  pack of the pixels at \<open>(bx*2+{0,1}, by*3+{0,1,2})\<close>, a pixel beyond the edge of
  the buffer being \<open>False\<close>.
\<close>

definition spec_cell :: "screen \<Rightarrow> heap \<Rightarrow> nat \<Rightarrow> nat \<Rightarrow> u8" where
  "spec_cell s hp bx by =
     boolsToInt
       [pixel_at s hp (bx * 2 + 0) (by * 3 + 0),
        pixel_at s hp (bx * 2 + 1) (by * 3 + 0),
        pixel_at s hp (bx * 2 + 0) (by * 3 + 1),
        pixel_at s hp (bx * 2 + 1) (by * 3 + 1),
        pixel_at s hp (bx * 2 + 0) (by * 3 + 2),
        pixel_at s hp (bx * 2 + 1) (by * 3 + 2)]"

section \<open>Auxiliary lemmas\<close>

subsection \<open>Packing and return codes\<close>

lemma upt6: "[0..<6] = [0,1,2,3,4,5]"
  by (simp add: upt_rec)

lemma boolsToInt_list: "boolsToInt [a,b,c,d,e,f] = 
   push_bit 1 (push_bit 1 (push_bit 1 (push_bit 1 (push_bit 1 (of_bool a) OR of_bool b) OR of_bool c) OR of_bool d) OR of_bool e) OR of_bool f"
  unfolding boolsToInt_def upt6 by simp

lemma unpack_pack: "unpack (boolsToInt [a,b,c,d,e,f]) = [a,b,c,d,e,f]"
  unfolding boolsToInt_list unpack_def 
  by (simp add: bit_simps)

lemma pack_unpack_all: "\<forall>w \<in> set (map of_nat [0..<64]). boolsToInt (unpack w) = (w::u8)"
  by code_simp

lemma pack_unpack: "w < 64 \<Longrightarrow> boolsToInt (unpack w) = w"
proof -
  assume "w < 64"
  hence "unat w < 64" by (simp add: word_less_nat_alt)
  hence "unat w \<in> set [0..<64]" by simp
  hence "of_nat (unat w) \<in> set (map of_nat [0..<64] :: u8 list)"
    unfolding set_map by (rule imageI)
  hence "w \<in> set (map of_nat [0..<64])" by simp
  thus ?thesis using pack_unpack_all by blast
qed

lemma set6: "{..<6::nat} = {0,1,2,3,4,5}" by auto

lemma sum6: "unat (boolsToInt [a,b,c,d,e,f]) = (\<Sum>i<6. of_bool ([a,b,c,d,e,f] ! i) * 2 ^ (5 - i))"
  unfolding boolsToInt_list set6 by (cases a; cases b; cases c; cases d; cases e; cases f; simp)

lemma len6: "length arr = 6 \<Longrightarrow> \<exists>a b c d e f. arr = [a,b,c,d,e,f]"
  by (auto simp: length_Suc_conv eval_nat_numeral)

lemma b64: "boolsToInt [a,b,c,d,e,f] < 64"
  unfolding boolsToInt_list by (cases a; cases b; cases c; cases d; cases e; cases f; simp)

lemma m255: "(255 :: u16) = mask 8"
  by (simp add: mask_eq_exp_minus_1)

lemma mFF00: "(0xFF00 :: u16) = push_bit 8 (mask 8)"
  by (simp add: mask_eq_exp_minus_1)

lemma returnData_join: "returnData (joinReturn s d) = d"
  unfolding returnData_def joinReturn_def m255
  by (rule bit_word_eqI) (auto simp: bit_simps dest: bit_imp_le_length)

lemma hi_join: "ucast (drop_bit 8 (joinReturn s d)) = s"
  unfolding joinReturn_def
  by (rule bit_word_eqI) (auto simp: bit_simps dest: bit_imp_le_length)

lemma and_join: "joinReturn s d AND 0xFF00 = push_bit 8 (ucast s)"
  unfolding joinReturn_def mFF00
  by (rule bit_word_eqI) (auto simp: bit_simps dest: bit_imp_le_length)

lemma hi_push: "ucast (drop_bit 8 (push_bit 8 (ucast (s::u8) :: u16))) = s"
  by (rule bit_word_eqI) (auto simp: bit_simps dest: bit_imp_le_length)

lemma push_inj: "push_bit 8 (ucast (s::u8) :: u16) = push_bit 8 (ucast (t::u8)) \<longleftrightarrow> s = t"
  by (metis hi_push)

lemma returnError_join: "returnError (joinReturn s d) = (if s = SCREEN_SUCCESS then 0 else s)"
  unfolding returnError_def and_join hi_join SCREEN_SUCCESS_BIT_def push_inj
  by simp

subsection \<open>Pixel access on a well-formed screen\<close>

lemma bindF_simps [simp]: "bindF (Inl e) f = Inl e" "bindF (Inr a) f = f a"
  by (simp_all add: bindF_def)

lemma screen_okD:
  assumes "screen_ok s hp"
  obtains da ra d r where "data s = Some da" "render s = Some ra"
    "lookup hp da = Some (Bools d)" "lookup hp ra = Some (Bytes r)"
    "length d = pixel_count (width s) (height s)"
    "length r = glyph_count (width s) (height s)"
proof -
  from assms obtain da ra where p: "data s = Some da" "render s = Some ra"
    by (auto simp: screen_ok_def split: option.splits)
  from assms p obtain b where b: "lookup hp da = Some b"
    by (cases "lookup hp da") (auto simp: screen_ok_def)
  from assms p b obtain d where d: "b = Bools d"
    by (cases b) (auto simp: screen_ok_def)
  from assms p b d obtain c where c: "lookup hp ra = Some c"
    by (cases "lookup hp ra") (auto simp: screen_ok_def)
  from assms p b d c obtain r where r: "c = Bytes r"
    by (cases c) (auto simp: screen_ok_def)
  from assms p b d c r that show thesis
    by (simp add: screen_ok_def)
qed

lemma screen_ok_pixels:
  "screen_ok s hp \<Longrightarrow> length (pixels_of s hp) = pixel_count (width s) (height s)"
  by (erule screen_okD) (simp add: pixels_of_def)

lemma screen_ok_cells:
  "screen_ok s hp \<Longrightarrow> length (cells_of s hp) = glyph_count (width s) (height s)"
  by (erule screen_okD) (simp add: cells_of_def)

lemma index_in_range:
  fixes x y w h :: nat
  assumes "x < w" "y < h"
  shows "y * w + x < w * h"
proof -
  have "y * w + x < y * w + w" using assms by simp
  also have "\<dots> = w * Suc y" by simp
  also have "\<dots> \<le> w * h" using assms by (intro mult_le_mono2) simp
  finally show ?thesis .
qed

lemma getScreenPixel_ok:
  assumes "screen_ok s hp" "status s = SCREEN_READY"
  shows "getScreenPixel (Some s) hp x y = Inr (pixel_at s hp (unat x) (unat y), Some s, hp)"
proof (cases "x \<ge> width s \<or> y \<ge> height s")
  case True
  then show ?thesis using assms(2)
    by (auto simp: getScreenPixel_def pixel_at_def word_le_nat_alt)
next
  case False
  hence lt: "unat x < unat (width s)" "unat y < unat (height s)"
    by (simp_all add: word_le_nat_alt)
  from assms(1) obtain da d where d: "data s = Some da" "lookup hp da = Some (Bools d)"
    "length d = pixel_count (width s) (height s)" by (rule screen_okD)
  have "unat y * unat (width s) + unat x < length d"
    using index_in_range[OF lt] d(3) by (simp add: pixel_count_def)
  then show ?thesis using False assms(2) d lt
    by (simp add: getScreenPixel_def pixel_at_def read_bool_def pixels_of_def word_le_nat_alt)
qed

lemma lookup_update: "lookup (hp\<lparr>blocks := (blocks hp)[a := b]\<rparr>) a' =
   (if a' = a \<and> a < length (blocks hp) then b else lookup hp a')"
  by (simp add: lookup_def nth_list_update)

lemma set_cells_ok:
  assumes "screen_ok s hp" "length r = glyph_count (width s) (height s)"
  shows "screen_ok s (set_cells s hp r)" 
    and "pixels_of s (set_cells s hp r) = pixels_of s hp"
    and "cells_of s (set_cells s hp r) = r"
    and "set_cells s (set_cells s hp r) r' = set_cells s hp r'"
    and "outcomes (set_cells s hp r) = outcomes hp"
proof -
  from assms(1) obtain da ra d r0 where *: "data s = Some da" "render s = Some ra"
    "lookup hp da = Some (Bools d)" "lookup hp ra = Some (Bytes r0)"
    "length d = pixel_count (width s) (height s)"
    by (rule screen_okD)
  have ne: "da \<noteq> ra" using * by auto
  have lt: "ra < length (blocks hp)" using *(4) by (auto simp: lookup_def split: if_splits)
  show "screen_ok s (set_cells s hp r)" using * ne lt assms(2)
    by (simp add: screen_ok_def set_cells_def lookup_update)
  show "pixels_of s (set_cells s hp r) = pixels_of s hp" using * ne
    by (simp add: pixels_of_def set_cells_def lookup_update)
  show "cells_of s (set_cells s hp r) = r" using * lt
    by (simp add: cells_of_def set_cells_def lookup_update)
  show "set_cells s (set_cells s hp r) r' = set_cells s hp r'" using *
    by (simp add: set_cells_def)
  show "outcomes (set_cells s hp r) = outcomes hp" using *
    by (simp add: set_cells_def)
qed

lemma set_cells_same:
  assumes "screen_ok s hp"
  shows "set_cells s hp (cells_of s hp) = hp"
proof -
  from assms(1) obtain ra r0 where *: "render s = Some ra" "lookup hp ra = Some (Bytes r0)"
    by (rule screen_okD)
  have lt: "ra < length (blocks hp)" "blocks hp ! ra = Some (Bytes r0)" using *(2) by (auto simp: lookup_def split: if_splits)
  show ?thesis using * lt by (simp add: set_cells_def cells_of_def list_update_same_conv)
qed

lemma pixel_at_set_cells:
  "screen_ok s hp \<Longrightarrow> length r = glyph_count (width s) (height s) \<Longrightarrow> pixel_at s (set_cells s hp r) = pixel_at s hp"
  by (simp add: pixel_at_def fun_eq_iff set_cells_ok(2))

lemma cell_value_set_cells:
  "screen_ok s hp \<Longrightarrow> length r = glyph_count (width s) (height s) \<Longrightarrow> cell_value s (set_cells s hp r) = cell_value s hp"
  by (simp add: cell_value_def fun_eq_iff pixel_at_set_cells)

lemma write_byte_ok:
  assumes "screen_ok s hp" "i < glyph_count (width s) (height s)"
  shows "write_byte hp (render s) i v = Inr (set_cells s hp ((cells_of s hp)[i := v]))"
proof -
  from assms(1) obtain ra r0 where *: "render s = Some ra" "lookup hp ra = Some (Bytes r0)"
     "length r0 = glyph_count (width s) (height s)"
    by (rule screen_okD)
  show ?thesis using * assms(2) by (simp add: write_byte_def set_cells_def cells_of_def)
qed

lemma renderCell_ok:
  assumes "screen_ok s hp" "status s = SCREEN_READY"
    and "unat (of_nat (y * unat gw + x) :: u16) = i" "i < glyph_count (width s) (height s)"
  shows "renderCell gw y x (Some s, hp) =
           Inr (Some s, set_cells s hp ((cells_of s hp)[i := cell_value s hp x y]))"
  using assms
  by (simp add: renderCell_def getScreenPixel_ok write_byte_ok cell_value_def)

subsection \<open>The loops of renderScreen\<close>

lemma unat_u8_lt: "unat (w :: u8) < 256"
  using unsigned_less[of w, where 'a=nat] by simp

lemma unat_gw: "unat (w div 2 + 1 :: u8) = unat w div 2 + 1"
proof -
  have a: "unat (w div 2) = unat w div 2" by (simp add: unat_div)
  have "unat (w div 2) + unat (1::u8) < 2 ^ LENGTH(8)"
    using unat_u8_lt[of w] by (simp add: a)
  hence "unat (w div 2 + 1) = unat (w div 2) + unat (1::u8)"
    by (simp only: unat_add_lem)
  thus ?thesis by (simp add: a)
qed

lemma unat_gh: "unat (w div 3 + 1 :: u8) = unat w div 3 + 1"
proof -
  have a: "unat (w div 3) = unat w div 3" by (simp add: unat_div)
  have "unat (w div 3) + unat (1::u8) < 2 ^ LENGTH(8)"
    using unat_u8_lt[of w] by (simp add: a)
  hence "unat (w div 3 + 1) = unat (w div 3) + unat (1::u8)"
    by (simp only: unat_add_lem)
  thus ?thesis by (simp add: a)
qed

lemma glyph_count_le: "glyph_count w ht \<le> 11008"
proof -
  have "unat w div 2 + 1 \<le> 128" "unat ht div 3 + 1 \<le> 86"
    using unat_u8_lt[of w] unat_u8_lt[of ht] by simp_all
  hence "(unat w div 2 + 1) * (unat ht div 3 + 1) \<le> 128 * 86"
    by (rule mult_le_mono)
  thus ?thesis by (simp add: glyph_count_def)
qed

lemma index_u16:
  assumes "i < glyph_count w ht"
  shows "unat (of_nat i :: u16) = i"
  using assms glyph_count_le[of w ht] by (simp add: unat_of_nat)

lemma fold_row_length:
  "length (fold (\<lambda>x r. r[f x := g x]) xs r) = length r"
  by (induction xs arbitrary: r) simp_all

lemma fold_row_nth:
  "i < length r \<Longrightarrow>
   fold (\<lambda>x r. r[b + x := g x]) xs r ! i =
     (if \<exists>x\<in>set xs. i = b + x then g (i - b) else r ! i)"
proof (induction xs arbitrary: r)
  case Nil
  then show ?case by simp
next
  case (Cons x xs)
  then show ?case by (auto simp: nth_list_update)
qed

lemma row_nth:
  assumes "i < length r" "0 < gw"
  shows "fold (\<lambda>x r. r[y * gw + x := g x y]) [0..<gw] r ! i =
     (if i div gw = y then g (i mod gw) y else r ! i)"
proof -
  have "(\<exists>x\<in>set [0..<gw]. i = y * gw + x) \<longleftrightarrow> i div gw = y"
  proof
    assume "\<exists>x\<in>set [0..<gw]. i = y * gw + x"
    then obtain x where "x < gw" "i = y * gw + x" by auto
    thus "i div gw = y" by simp
  next
    assume "i div gw = y"
    hence "i = y * gw + i mod gw" by (metis div_mult_mod_eq)
    moreover have "i mod gw < gw" using assms(2) by simp
    ultimately show "\<exists>x\<in>set [0..<gw]. i = y * gw + x" by auto
  qed
  moreover have "i div gw = y \<Longrightarrow> i - y * gw = i mod gw"
    by (metis add_diff_cancel_left' div_mult_mod_eq)
  ultimately show ?thesis
    using fold_row_nth[OF assms(1), of "y * gw" "\<lambda>x. g x y" "[0..<gw]"] by simp
qed

lemma rows_nth:
  assumes "i < length r" "0 < gw"
  shows "fold (\<lambda>y. fold (\<lambda>x r. r[y * gw + x := g x y]) [0..<gw]) ys r ! i =
     (if i div gw \<in> set ys then g (i mod gw) (i div gw) else r ! i)"
  using assms
proof (induction ys arbitrary: r)
  case Nil
  then show ?case by simp
next
  case (Cons y ys)
  have len: "i < length (fold (\<lambda>x r. r[y * gw + x := g x y]) [0..<gw] r)"
    using Cons.prems by (simp add: fold_row_length)
  show ?case
    using Cons.IH[OF len Cons.prems(2)] row_nth[OF Cons.prems, of y g]
    by auto
qed

lemma rows_length:
  "length (fold (\<lambda>y. fold (\<lambda>x r. r[y * gw + x := g x y]) xs) ys r) = length r"
  by (induction ys arbitrary: r) (simp_all add: fold_row_length)

lemma rows_all:
  assumes "length r = gw * gh" "0 < gw"
  shows "fold (\<lambda>y. fold (\<lambda>x r. r[y * gw + x := g x y]) [0..<gw]) [0..<gh] r =
         map (\<lambda>i. g (i mod gw) (i div gw)) [0..<gw * gh]"
proof (rule nth_equalityI)
  show "length (fold (\<lambda>y. fold (\<lambda>x r. r[y * gw + x := g x y]) [0..<gw]) [0..<gh] r) =
        length (map (\<lambda>i. g (i mod gw) (i div gw)) [0..<gw * gh])"
    using assms by (simp add: rows_length)
next
  fix i
  assume "i < length (fold (\<lambda>y. fold (\<lambda>x r. r[y * gw + x := g x y]) [0..<gw]) [0..<gh] r)"
  hence i: "i < gw * gh" using assms by (simp add: rows_length)
  hence "i div gw < gh" by (simp add: less_mult_imp_div_less mult.commute)
  thus "fold (\<lambda>y. fold (\<lambda>x r. r[y * gw + x := g x y]) [0..<gw]) [0..<gh] r ! i =
        map (\<lambda>i. g (i mod gw) (i div gw)) [0..<gw * gh] ! i"
    using rows_nth[of i r gw g "[0..<gh]"] i assms by simp
qed

lemma render_row:
  assumes "screen_ok s hp" "status s = SCREEN_READY"
    and "length r = glyph_count (width s) (height s)"
    and "\<forall>x\<in>set xs. y * unat gw + x < glyph_count (width s) (height s)"
  shows "for_loop xs (renderCell gw y) (Some s, set_cells s hp r) =
         Inr (Some s, set_cells s hp
                (fold (\<lambda>x r. r[y * unat gw + x := cell_value s hp x y]) xs r))"
  using assms(3,4)
proof (induction xs arbitrary: r)
  case Nil
  then show ?case by simp
next
  case (Cons x xs)
  let ?i = "y * unat gw + x"
  have i: "?i < glyph_count (width s) (height s)" using Cons.prems(2) by simp
  have ok': "screen_ok s (set_cells s hp r)"
    using assms(1) Cons.prems(1) by (rule set_cells_ok(1))
  have step: "renderCell gw y x (Some s, set_cells s hp r) =
      Inr (Some s, set_cells s hp (r[?i := cell_value s hp x y]))"
    using renderCell_ok[OF ok' assms(2) index_u16[OF i] i]
    by (simp add: set_cells_ok[OF assms(1) Cons.prems(1)]
        cell_value_set_cells[OF assms(1) Cons.prems(1)])
  have "length (r[?i := cell_value s hp x y]) = glyph_count (width s) (height s)"
    using Cons.prems(1) by simp
  from Cons.IH[OF this] Cons.prems(2) show ?case
    by (simp add: step)
qed

lemma render_rows:
  assumes "screen_ok s hp" "status s = SCREEN_READY"
    and "length r = glyph_count (width s) (height s)"
    and "unat gw = unat (width s) div 2 + 1"
    and "\<forall>y\<in>set ys. y < unat (height s) div 3 + 1"
  shows "for_loop ys (\<lambda>y. for_loop [0..<unat gw] (renderCell gw y)) (Some s, set_cells s hp r) =
         Inr (Some s, set_cells s hp
                (fold (\<lambda>y. fold (\<lambda>x r. r[y * unat gw + x := cell_value s hp x y]) [0..<unat gw]) ys r))"
  using assms(3,5)
proof (induction ys arbitrary: r)
  case Nil
  then show ?case by simp
next
  case (Cons y ys)
  have y: "y < unat (height s) div 3 + 1" using Cons.prems(2) by simp
  have "\<forall>x\<in>set [0..<unat gw]. y * unat gw + x < glyph_count (width s) (height s)"
    using index_in_range[OF _ y, of _ "unat gw"] by (simp add: glyph_count_def assms(4))
  note row = render_row[OF assms(1,2) Cons.prems(1) this]
  have "length (fold (\<lambda>x r. r[y * unat gw + x := cell_value s hp x y]) [0..<unat gw] r)
        = glyph_count (width s) (height s)"
    using Cons.prems(1) by (simp add: fold_row_length)
  from Cons.IH[OF this] Cons.prems(2) show ?case
    by (simp add: row)
qed

lemma renderScreen_ok:
  assumes "screen_ok s hp" "status s = SCREEN_READY"
  shows "renderScreen (Some s) hp = Inr (Some s, set_cells s hp (rendered_cells s hp))"
proof -
  let ?gw = "width s div 2 + 1"
  have gw: "unat ?gw = unat (width s) div 2 + 1" by (rule unat_gw)
  have len: "length (cells_of s hp) = glyph_count (width s) (height s)"
    using assms(1) by (rule screen_ok_cells)
  have "renderScreen (Some s) hp =
        for_loop [0..<unat (height s) div 3 + 1]
          (\<lambda>y. for_loop [0..<unat ?gw] (renderCell ?gw y))
          (Some s, set_cells s hp (cells_of s hp))"
    by (simp add: renderScreen_def Let_def unat_gh set_cells_same[OF assms(1)])
  also have "\<dots> = Inr (Some s, set_cells s hp
        (fold (\<lambda>y. fold (\<lambda>x r. r[y * unat ?gw + x := cell_value s hp x y]) [0..<unat ?gw])
           [0..<unat (height s) div 3 + 1] (cells_of s hp)))"
    by (rule render_rows[OF assms len gw]) simp
  also have "fold (\<lambda>y. fold (\<lambda>x r. r[y * unat ?gw + x := cell_value s hp x y]) [0..<unat ?gw])
           [0..<unat (height s) div 3 + 1] (cells_of s hp) = rendered_cells s hp"
    unfolding rendered_cells_def gw glyph_count_def
    by (rule rows_all) (simp_all add: len glyph_count_def)
  finally show ?thesis .
qed

subsection \<open>The packing is a bijection\<close>

lemma len6E:
  assumes "length arr = 6"
  obtains a b c d e f where "arr = [a, b, c, d, e, f]"
  using len6[OF assms] by (elim exE)

lemma rep6: "replicate 6 x = [x, x, x, x, x, x]"
  by (simp add: numeral_eq_Suc)

lemma sum_len6:
  assumes "length arr = 6"
  shows "unat (boolsToInt arr) = (\<Sum>i<6. of_bool (arr ! i) * 2 ^ (5 - i))"
proof -
  from assms obtain a b c d e f where "arr = [a, b, c, d, e, f]"
    by (rule len6E)
  thus ?thesis by (simp only: sum6)
qed

lemma inj6: "inj_on boolsToInt {arr. length arr = 6}"
proof (rule inj_on_inverseI[where g = unpack])
  fix arr :: "bool list"
  assume "arr \<in> {arr. length arr = 6}"
  hence "length arr = 6" by simp
  then obtain a b c d e f where "arr = [a, b, c, d, e, f]"
    by (rule len6E)
  thus "unpack (boolsToInt arr) = arr" by (simp only: unpack_pack)
qed

lemma img6: "boolsToInt ` {arr. length arr = 6} = {w. w < 64}"
proof (intro equalityI subsetI)
  fix w assume "w \<in> boolsToInt ` {arr. length arr = 6}"
  then obtain arr where arr: "length arr = 6" "w = boolsToInt arr" by auto
  from arr(1) obtain a b c d e f where "arr = [a, b, c, d, e, f]"
    by (rule len6E)
  with arr(2) have "w < 64" by (simp only: b64)
  thus "w \<in> {w. w < 64}" by simp
next
  fix w :: u8 assume "w \<in> {w. w < 64}"
  hence "w < 64" by simp
  hence "boolsToInt (unpack w) = w" by (rule pack_unpack)
  moreover have "unpack w \<in> {arr. length arr = 6}" by (simp add: unpack_def)
  ultimately show "w \<in> boolsToInt ` {arr. length arr = 6}"
    by (metis imageI)
qed

subsection \<open>Writing a pixel\<close>

lemma set_pixels_ok:
  assumes "screen_ok s hp" "length d = pixel_count (width s) (height s)"
  shows "screen_ok s (set_pixels s hp d)"
    and "pixels_of s (set_pixels s hp d) = d"
    and "cells_of s (set_pixels s hp d) = cells_of s hp"
    and "outcomes (set_pixels s hp d) = outcomes hp"
proof -
  from assms(1) obtain da ra d0 r where *: "data s = Some da" "render s = Some ra"
    "lookup hp da = Some (Bools d0)" "lookup hp ra = Some (Bytes r)"
    "length r = glyph_count (width s) (height s)"
    by (rule screen_okD)
  have ne: "da \<noteq> ra" using * by auto
  have lt: "da < length (blocks hp)" using *(3) by (auto simp: lookup_def split: if_splits)
  show "screen_ok s (set_pixels s hp d)" using * ne lt assms(2)
    by (simp add: screen_ok_def set_pixels_def lookup_update)
  show "pixels_of s (set_pixels s hp d) = d" using * lt
    by (simp add: pixels_of_def set_pixels_def lookup_update)
  show "cells_of s (set_pixels s hp d) = cells_of s hp" using * ne
    by (simp add: cells_of_def set_pixels_def lookup_update)
  show "outcomes (set_pixels s hp d) = outcomes hp" using *
    by (simp add: set_pixels_def)
qed

lemma write_bool_ok:
  assumes "screen_ok s hp" "i < pixel_count (width s) (height s)"
  shows "write_bool hp (data s) i v = Inr (set_pixels s hp ((pixels_of s hp)[i := v]))"
proof -
  from assms(1) obtain da d0 where *: "data s = Some da" "lookup hp da = Some (Bools d0)"
     "length d0 = pixel_count (width s) (height s)"
    by (rule screen_okD)
  show ?thesis using * assms(2) by (simp add: write_bool_def set_pixels_def pixels_of_def)
qed

lemma setScreenPixel_ok:
  assumes "screen_ok s hp" "status s = SCREEN_READY" "x < width s" "y < height s"
  shows "setScreenPixel (Some s) hp x y v =
         Inr (joinReturn SCREEN_SUCCESS 0, Some s,
              set_pixels s hp ((pixels_of s hp)[unat y * unat (width s) + unat x := v]))"
proof -
  have lt: "unat x < unat (width s)" "unat y < unat (height s)"
    using assms(3,4) by (simp_all add: word_less_nat_alt)
  have "unat y * unat (width s) + unat x < pixel_count (width s) (height s)"
    using index_in_range[OF lt] by (simp add: pixel_count_def)
  moreover have "\<not> (width s \<le> x \<or> height s \<le> y)"
    using assms(3,4) by (simp add: not_le)
  ultimately show ?thesis using assms(2)
    by (simp add: setScreenPixel_def write_bool_ok[OF assms(1)])
qed

lemma set_get_ok:
  fixes v :: bool
  assumes "screen_ok s hp" "status s = SCREEN_READY" "x < width s" "y < height s"
  defines "hp' \<equiv> set_pixels s hp ((pixels_of s hp)[unat y * unat (width s) + unat x := v])"
  shows "setScreenPixel (Some s) hp x y v = Inr (joinReturn SCREEN_SUCCESS 0, Some s, hp')"
    and "getScreenPixel (Some s) hp' x y = Inr (v, Some s, hp')"
    and "screen_ok s hp'"
proof -
  let ?i = "unat y * unat (width s) + unat x"
  have lt: "unat x < unat (width s)" "unat y < unat (height s)"
    using assms(3,4) by (simp_all add: word_less_nat_alt)
  have i: "?i < pixel_count (width s) (height s)"
    using index_in_range[OF lt] by (simp add: pixel_count_def)
  have len: "length ((pixels_of s hp)[?i := v]) = pixel_count (width s) (height s)"
    using screen_ok_pixels[OF assms(1)] by simp
  show "setScreenPixel (Some s) hp x y v = Inr (joinReturn SCREEN_SUCCESS 0, Some s, hp')"
    unfolding hp'_def using assms(1-4) by (rule setScreenPixel_ok)
  show ok': "screen_ok s hp'"
    unfolding hp'_def using assms(1) len by (rule set_pixels_ok(1))
  have "pixel_at s hp' (unat x) (unat y) = v"
    using lt i screen_ok_pixels[OF assms(1)]
    by (simp add: pixel_at_def hp'_def set_pixels_ok(2)[OF assms(1) len])
  with getScreenPixel_ok[OF ok' assms(2), of x y]
  show "getScreenPixel (Some s) hp' x y = Inr (v, Some s, hp')" by simp
qed

lemma demo_ok: "screen_ok demo_screen demo_heap" "status demo_screen = SCREEN_READY"
  by (simp_all add: screen_ok_def demo_screen_def demo_heap_def lookup_def
      pixel_count_def glyph_count_def)

subsection \<open>Allocation\<close>

lemma calloc_fail:
  assumes "take 1 (outcomes hp) = [False]"
  shows "calloc_m z hp = (None, hp\<lparr>outcomes := drop 1 (outcomes hp)\<rparr>)"
  using assms by (cases "outcomes hp") (auto simp: calloc_m_def)

lemma calloc_success:
  assumes "take 1 (outcomes hp) \<noteq> [False]"
  shows "calloc_m z hp = (Some (length (blocks hp)),
           hp\<lparr>blocks := blocks hp @ [Some z], outcomes := drop 1 (outcomes hp)\<rparr>)"
  using assms by (cases "outcomes hp") (auto simp: calloc_m_def drop_Suc split: bool.splits)

lemma lookup_outcomes [simp]: "lookup (hp\<lparr>outcomes := os\<rparr>) a = lookup hp a"
  by (simp add: lookup_def)

lemma SCREEN_ERROR_neq: "SCREEN_ERROR \<noteq> SCREEN_SUCCESS" "SCREEN_ERROR \<noteq> 0"
  by (simp_all add: SCREEN_ERROR_def SCREEN_SUCCESS_def)

lemma initScreen_alloc_aux:
  "\<exists>ret s' hp'.
     initScreen (Some s) hp fl w ht = (ret, Some s', hp')
     \<and> status s' = SCREEN_READY \<and> flags s' = fl \<and> width s' = w \<and> height s' = ht
     \<and> (data s' = None \<longleftrightarrow> take 1 (outcomes hp) = [False])
     \<and> (render s' = None \<longleftrightarrow> take 1 (drop 1 (outcomes hp)) = [False])
     \<and> (\<forall>da. data s' = Some da \<longrightarrow>
            lookup hp da = None \<and>
            lookup hp' da = Some (Bools (replicate (pixel_count w ht) False)))
     \<and> (\<forall>ra. render s' = Some ra \<longrightarrow>
            lookup hp ra = None \<and>
            lookup hp' ra =
              Some (Bytes (replicate (glyph_count w ht) 0)))
     \<and> returnData ret = 0
     \<and> (if data s' = None \<or> render s' = None
         then ret = joinReturn SCREEN_ERROR 0 \<and> returnError ret = SCREEN_ERROR
              \<and> returnError ret \<noteq> 0
         else ret = joinReturn SCREEN_SUCCESS 0 \<and> returnError ret = 0)"
proof (cases "take 1 (outcomes hp) = [False]")
  case f1: True
  show ?thesis
  proof (cases "take 1 (drop 1 (outcomes hp)) = [False]")
    case True
    with f1 show ?thesis
      by (simp add: initScreen_def calloc_fail calloc_success returnData_join returnError_join
          SCREEN_ERROR_neq)
  next
    case False
    with f1 show ?thesis
      by (simp add: initScreen_def calloc_fail calloc_success returnData_join returnError_join
          SCREEN_ERROR_neq lookup_def nth_append)
  qed
next
  case f1: False
  show ?thesis
  proof (cases "take 1 (drop 1 (outcomes hp)) = [False]")
    case True
    with f1 show ?thesis
      by (simp add: initScreen_def calloc_fail calloc_success returnData_join returnError_join
          SCREEN_ERROR_neq lookup_def nth_append)
  next
    case False
    with f1 show ?thesis
      by (simp add: initScreen_def calloc_fail calloc_success returnData_join returnError_join
          SCREEN_ERROR_neq lookup_def nth_append)
  qed
qed

lemma calloc_keeps:
  assumes "calloc_m z hp = (p, hp')" "a < length (blocks hp)"
  shows "lookup hp' a = lookup hp a" "length (blocks hp) \<le> length (blocks hp')"
  using assms
  by (cases "take 1 (outcomes hp) = [False]";
      auto simp: calloc_fail calloc_success lookup_def nth_append)+

lemma initScreen_keeps:
  assumes "initScreen (Some s) hp fl w ht = (ret, scr', hp')" "a < length (blocks hp)"
  shows "lookup hp' a = lookup hp a"
proof -
  obtain d hp1 where 1: "calloc_m (Bools (replicate (pixel_count w ht) False)) hp = (d, hp1)"
    by (cases "calloc_m (Bools (replicate (pixel_count w ht) False)) hp")
  obtain r hp2 where 2: "calloc_m (Bytes (replicate (glyph_count w ht) 0)) hp1 = (r, hp2)"
    by (cases "calloc_m (Bytes (replicate (glyph_count w ht) 0)) hp1")
  have "hp' = hp2" using assms(1) 1 2 by (simp add: initScreen_def)
  moreover have "a < length (blocks hp1)" using calloc_keeps(2)[OF 1 assms(2)] assms(2) by simp
  ultimately show ?thesis
    using calloc_keeps(1)[OF 1 assms(2)] calloc_keeps(1)[OF 2] by simp
qed

lemma count_20: "pixel_count 20 20 = 400"
  by (simp add: pixel_count_def)

subsection \<open>The result of renderScreen\<close>

lemma rendered_cells_length:
  "length (rendered_cells s hp) = glyph_count (width s) (height s)"
  by (simp add: rendered_cells_def)

lemma lookup_set_cells:
  "render s \<noteq> Some a \<Longrightarrow> lookup (set_cells s hp r) a = lookup hp a"
  by (cases "render s") (auto simp: set_cells_def lookup_update)

lemma pixel_at_cong:
  assumes "width t = width s" "height t = height s" "pixels_of t hq = pixels_of s hp"
  shows "pixel_at t hq = pixel_at s hp"
  using assms by (simp add: pixel_at_def fun_eq_iff)

lemma rendered_cells_cong:
  assumes "width t = width s" "height t = height s" "pixels_of t hq = pixels_of s hp"
  shows "rendered_cells t hq = rendered_cells s hp"
  unfolding rendered_cells_def cell_value_def pixel_at_cong[OF assms] assms(1,2) ..

lemma renderScreen_twice:
  assumes "screen_ok s hp" "status s = SCREEN_READY"
  shows "renderScreen (Some s) (set_cells s hp (rendered_cells s hp))
         = Inr (Some s, set_cells s hp (rendered_cells s hp))"
proof -
  let ?hp' = "set_cells s hp (rendered_cells s hp)"
  note len = rendered_cells_length[of s hp]
  have ok': "screen_ok s ?hp'" using assms(1) len by (rule set_cells_ok(1))
  have "rendered_cells s ?hp' = rendered_cells s hp"
    by (rule rendered_cells_cong) (simp_all add: set_cells_ok(2)[OF assms(1) len])
  thus ?thesis
    using renderScreen_ok[OF ok' assms(2)] by (simp add: set_cells_ok(4)[OF assms(1) len])
qed

subsection \<open>The table lookups of printScreen\<close>

lemma char_map_length: "length char_map = 64"
  by (simp add: char_map_def)

lemma cell_value_lt: "cell_value s hp bx by < 64"
  unfolding cell_value_def by (rule b64)

lemma rendered_cells_lt: "c \<in> set (rendered_cells s hp) \<Longrightarrow> c < 64"
  by (auto simp: rendered_cells_def cell_value_lt)

lemma read_byte_ok:
  assumes "screen_ok s hp" "i < glyph_count (width s) (height s)"
  shows "read_byte hp (render s) i = Inr (cells_of s hp ! i)"
proof -
  from assms(1) obtain ra r0 where *: "render s = Some ra" "lookup hp ra = Some (Bytes r0)"
     "length r0 = glyph_count (width s) (height s)"
    by (rule screen_okD)
  show ?thesis using * assms(2) by (simp add: read_byte_def cells_of_def)
qed

lemma printRow_ok:
  assumes "screen_ok s hp" "\<forall>c\<in>set (cells_of s hp). c < 64"
    and "\<forall>x\<in>set xs. y * unat gw + x < glyph_count (width s) (height s)"
  shows "printRow hp (render s) gw y xs =
         Inr (map (\<lambda>x. char_map ! unat (cells_of s hp ! (y * unat gw + x))) xs)"
  using assms(3)
proof (induction xs)
  case Nil
  then show ?case by simp
next
  case (Cons x xs)
  let ?i = "y * unat gw + x"
  have i: "?i < glyph_count (width s) (height s)" using Cons.prems by simp
  hence "cells_of s hp ! ?i \<in> set (cells_of s hp)"
    using screen_ok_cells[OF assms(1)] by simp
  hence "cells_of s hp ! ?i < 64" using assms(2) by blast
  hence "unat (cells_of s hp ! ?i) < 64" by (simp add: word_less_nat_alt)
  hence g: "glyph_at (unat (cells_of s hp ! ?i)) = Inr (char_map ! unat (cells_of s hp ! ?i))"
    by (simp add: glyph_at_def char_map_length)
  have rb: "read_byte hp (render s) (unat (of_nat ?i :: u16)) = Inr (cells_of s hp ! ?i)"
    by (simp only: index_u16[OF i] read_byte_ok[OF assms(1) i])
  have IH: "printRow hp (render s) gw y xs =
         Inr (map (\<lambda>x. char_map ! unat (cells_of s hp ! (y * unat gw + x))) xs)"
    using Cons by simp
  show ?case
    unfolding printRow.simps rb bindF_simps g IH by simp
qed

lemma printRows_ok:
  assumes "screen_ok s hp" "\<forall>c\<in>set (cells_of s hp). c < 64"
    and "unat gw = unat (width s) div 2 + 1"
    and "\<forall>y\<in>set ys. y < unat (height s) div 3 + 1"
  shows "printRows hp (render s) gw gh ys =
         Inr (map (\<lambda>y. map (\<lambda>x. char_map ! unat (cells_of s hp ! (y * unat gw + x)))
                          [0..<unat gw]) ys)"
  using assms(4)
proof (induction ys)
  case Nil
  then show ?case by simp
next
  case (Cons y ys)
  have y: "y < unat (height s) div 3 + 1" using Cons.prems by simp
  have "\<forall>x\<in>set [0..<unat gw]. y * unat gw + x < glyph_count (width s) (height s)"
    using index_in_range[OF _ y, of _ "unat gw"] by (simp add: glyph_count_def assms(3))
  note row = printRow_ok[OF assms(1,2) this]
  from Cons show ?case by (simp add: row)
qed

lemma printScreen_ok:
  assumes "screen_ok s hp" "\<forall>c\<in>set (cells_of s hp). c < 64"
  shows "printScreen (Some s) hp =
         Inr (map (\<lambda>y. map (\<lambda>x. char_map ! unat (cells_of s hp ! (y * (unat (width s) div 2 + 1) + x)))
                          [0..<unat (width s) div 2 + 1]) [0..<unat (height s) div 3 + 1])"
  using printRows_ok[OF assms unat_gw, of "[0..<unat (height s) div 3 + 1]" "height s div 3 + 1"]
  by (simp add: printScreen_def Let_def unat_gw unat_gh)

subsection \<open>Single cells of a rendered screen\<close>

lemma cell_pos:
  fixes bx gw :: nat
  assumes "bx < gw"
  shows "(by * gw + bx) mod gw = bx" "(by * gw + bx) div gw = by"
  using assms by simp_all

lemma rendered_cells_nth:
  assumes "i < glyph_count (width s) (height s)"
  shows "rendered_cells s hp ! i =
         cell_value s hp (i mod (unat (width s) div 2 + 1)) (i div (unat (width s) div 2 + 1))"
  using assms unfolding rendered_cells_def by (simp only: nth_map length_upt nth_upt minus_nat.diff_0 add_0)

lemma renderScreen_cells:
  assumes "screen_ok s hp" "status s = SCREEN_READY"
    and "bx < unat (width s) div 2 + 1" "by < unat (height s) div 3 + 1"
  shows "\<exists>hp'. renderScreen (Some s) hp = Inr (Some s, hp')
          \<and> length (cells_of s hp') = (unat (width s) div 2 + 1) * (unat (height s) div 3 + 1)
          \<and> cells_of s hp' ! (by * (unat (width s) div 2 + 1) + bx) = cell_value s hp bx by"
proof -
  let ?hp' = "set_cells s hp (rendered_cells s hp)"
  let ?gw = "unat (width s) div 2 + 1"
  note len = rendered_cells_length[of s hp]
  have c: "cells_of s ?hp' = rendered_cells s hp" using assms(1) len by (rule set_cells_ok(3))
  have i: "by * ?gw + bx < glyph_count (width s) (height s)"
    using index_in_range[OF assms(3,4)] by (simp add: glyph_count_def)
  have "rendered_cells s hp ! (by * ?gw + bx) = cell_value s hp bx by"
    unfolding rendered_cells_nth[OF i] cell_pos[OF assms(3)] ..
  with renderScreen_ok[OF assms(1,2)] c len show ?thesis
    unfolding glyph_count_def by (intro exI[of _ ?hp']) (simp only: simp_thms)
qed

lemma u8_id: "n < 256 \<Longrightarrow> unat (of_nat n :: u8) = n"
  by (simp add: unat_of_nat)

lemma cell_value_no_wrap:
  assumes "height s \<noteq> 255"
    and "bx < unat (width s) div 2 + 1" "by < unat (height s) div 3 + 1"
  shows "cell_value s hp bx by = spec_cell s hp bx by"
proof -
  have "unat (height s) \<noteq> 255"
  proof
    assume "unat (height s) = 255"
    hence "of_nat (unat (height s)) = (of_nat 255 :: u8)" by simp
    hence "height s = 255" by simp
    with assms(1) show False by simp
  qed
  hence "unat (height s) < 255" using unat_u8_lt[of "height s"] by simp
  hence y: "by * 3 + 2 < 256" using assms(3) by arith
  hence y': "by * 3 + 0 < 256" "by * 3 + 1 < 256" by simp_all
  have x: "bx * 2 + 1 < 256" using assms(2) unat_u8_lt[of "width s"] by arith
  hence x': "bx * 2 + 0 < 256" by simp
  have "unat (of_nat (bx * 2 + 0) :: u8) = bx * 2 + 0" "unat (of_nat (bx * 2 + 1) :: u8) = bx * 2 + 1"
    "unat (of_nat (by * 3 + 0) :: u8) = by * 3 + 0" "unat (of_nat (by * 3 + 1) :: u8) = by * 3 + 1"
    "unat (of_nat (by * 3 + 2) :: u8) = by * 3 + 2"
    using x x' y y' by (simp_all only: u8_id)
  thus ?thesis unfolding cell_value_def spec_cell_def by (simp only:)
qed

lemma tall_ok: "screen_ok tall_screen tall_heap" "status tall_screen = SCREEN_READY"
  by (simp_all add: screen_ok_def tall_screen_def tall_heap_def lookup_def
      pixel_count_def glyph_count_def)

lemma tall_pixels: "pixels_of tall_screen tall_heap = (replicate 255 False)[0 := True]"
  by (simp add: pixels_of_def tall_screen_def tall_heap_def lookup_def)

lemma tall_cell: "cell_value tall_screen tall_heap 0 85 = 8"
  by (simp add: cell_value_def pixel_at_def tall_pixels boolsToInt_list)
     (simp add: tall_screen_def)

lemma tall_spec: "spec_cell tall_screen tall_heap 0 85 = 0"
  by (simp add: spec_cell_def pixel_at_def tall_pixels boolsToInt_list)
     (simp add: tall_screen_def)

lemma renderScreen_matches_spec_below_255:
  assumes "screen_ok s hp" "status s = SCREEN_READY" "height s \<noteq> 255"
    and "bx < unat (width s) div 2 + 1" "by < unat (height s) div 3 + 1"
  shows "\<exists>hp'. renderScreen (Some s) hp = Inr (Some s, hp')
          \<and> length (cells_of s hp') = (unat (width s) div 2 + 1) * (unat (height s) div 3 + 1)
          \<and> cells_of s hp' ! (by * (unat (width s) div 2 + 1) + bx) = spec_cell s hp bx by"
  using renderScreen_cells[OF assms(1,2,4,5)] cell_value_no_wrap[OF assms(3,4,5), of hp]
  by simp

lemma demo_pixels:
  "pixels_of demo_screen demo_heap = [True, True, True, True, True, True]"
  by (simp add: pixels_of_def demo_screen_def demo_heap_def lookup_def)

lemma demo_cells:
  "cell_value demo_screen demo_heap 0 0 = 63" "cell_value demo_screen demo_heap 1 0 = 0"
  "cell_value demo_screen demo_heap 0 1 = 0" "cell_value demo_screen demo_heap 1 1 = 0"
  by (simp_all add: cell_value_def pixel_at_def demo_pixels boolsToInt_list)
     (simp_all add: demo_screen_def)

lemma demo_rendered:
  "renderScreen (Some demo_screen) demo_heap
     = Inr (Some demo_screen, set_cells demo_screen demo_heap [63, 0, 0, 0])"
proof -
  have g: "glyph_count (width demo_screen) (height demo_screen) = 4"
    by (simp add: glyph_count_def demo_screen_def)
  have u: "[0..<4] = [0, 1, 2, 3]" by (simp add: upt_rec)
  have w: "unat (width demo_screen) div 2 + 1 = 2"
    by (simp add: demo_screen_def)
  have "rendered_cells demo_screen demo_heap = [63, 0, 0, 0]"
    unfolding rendered_cells_def g u w
    using demo_cells by simp
  with renderScreen_ok[OF demo_ok] show ?thesis by simp
qed

lemma tall_reached:
  "initScreen (Some blank_screen) empty_heap 0 1 255
     = (joinReturn SCREEN_SUCCESS 0, Some tall_screen,
        \<lparr>blocks = [Some (Bools (replicate 255 False)), Some (Bytes (replicate 86 0))],
         outcomes = []\<rparr>)"
  "setScreenPixel (Some tall_screen)
     \<lparr>blocks = [Some (Bools (replicate 255 False)), Some (Bytes (replicate 86 0))],
      outcomes = []\<rparr> 0 0 True
     = Inr (joinReturn SCREEN_SUCCESS 0, Some tall_screen, tall_heap)"
  by (simp_all add: initScreen_def calloc_m_def blank_screen_def empty_heap_def tall_screen_def
      tall_heap_def pixel_count_def glyph_count_def setScreenPixel_def write_bool_def lookup_def
      SCREEN_READY_def)

subsection \<open>Resizing\<close>

lemma free_live:
  assumes "lookup hp a = Some b"
  shows "free_m (Some a) hp = Inr (hp\<lparr>blocks := (blocks hp)[a := None]\<rparr>)"
  using assms by (simp add: free_m_def)

lemma free_both:
  assumes "screen_ok s hp"
  shows "\<exists>hp0. bindF (free_m (data s) hp) (free_m (render s)) = Inr hp0
          \<and> length (blocks hp0) = length (blocks hp)
          \<and> outcomes hp0 = outcomes hp
          \<and> (\<forall>a. data s = Some a \<or> render s = Some a \<longrightarrow>
                 a < length (blocks hp0) \<and> lookup hp0 a = None)"
proof -
  from assms obtain da ra d r where *: "data s = Some da" "render s = Some ra"
    "lookup hp da = Some (Bools d)" "lookup hp ra = Some (Bytes r)"
    by (rule screen_okD)
  have ne: "da \<noteq> ra" using * by auto
  have lt: "da < length (blocks hp)" "ra < length (blocks hp)"
    using *(3,4) by (auto simp: lookup_def split: if_splits)
  let ?hp1 = "hp\<lparr>blocks := (blocks hp)[da := None]\<rparr>"
  have 1: "free_m (Some da) hp = Inr ?hp1" using *(3) by (rule free_live)
  have "lookup ?hp1 ra = Some (Bytes r)" using *(4) ne by (simp add: lookup_update)
  hence 2: "free_m (Some ra) ?hp1 = Inr (?hp1\<lparr>blocks := (blocks ?hp1)[ra := None]\<rparr>)"
    by (rule free_live)
  show ?thesis
    using * 1 2 lt ne by (auto simp: lookup_def nth_list_update)
qed

lemma resize_is_init:
  assumes "status s = SCREEN_READY" "data s \<noteq> None"
    and "bindF (free_m (data s) hp) (free_m (render s)) = Inr hp0"
  shows "resizeScreen (Some s) hp w ht = Inr (initScreen (Some s) hp0 (flags s) w ht)"
  using assms by (simp add: resizeScreen_def initScreen_def Let_def split: prod.splits)

lemma fresh_screen_ok:
  assumes "data s = Some da" "render s = Some ra"
    and "lookup hp da = Some (Bools (replicate (pixel_count (width s) (height s)) False))"
    and "lookup hp ra = Some (Bytes (replicate (glyph_count (width s) (height s)) 0))"
  shows "screen_ok s hp"
    and "pixels_of s hp = replicate (pixel_count (width s) (height s)) False"
  using assms by (simp_all add: screen_ok_def pixels_of_def)

lemma blank_pixel_at:
  assumes "screen_ok s hp" "pixels_of s hp = replicate (pixel_count (width s) (height s)) False"
  shows "pixel_at s hp x y = False"
proof (cases "x \<ge> unat (width s) \<or> y \<ge> unat (height s)")
  case True
  then show ?thesis by (simp add: pixel_at_def)
next
  case False
  hence "y * unat (width s) + x < pixel_count (width s) (height s)"
    using index_in_range[of x "unat (width s)" y "unat (height s)"] by (simp add: pixel_count_def)
  with False show ?thesis by (simp add: pixel_at_def assms(2))
qed

lemma resize_success_state:
  assumes "initScreen (Some s) hp0 fl w2 h2 = (ret, Some s', hp')" "returnError ret = 0"
  shows "screen_ok s' hp'" "status s' = SCREEN_READY"
    and "pixels_of s' hp' = replicate (pixel_count w2 h2) False"
    and "width s' = w2" "height s' = h2"
proof -
  obtain ret1 s1 hp1 where i:
    "initScreen (Some s) hp0 fl w2 h2 = (ret1, Some s1, hp1)"
    "status s1 = SCREEN_READY" "width s1 = w2" "height s1 = h2"
    "\<forall>da. data s1 = Some da \<longrightarrow>
            lookup hp0 da = None \<and>
            lookup hp1 da = Some (Bools (replicate (pixel_count w2 h2) False))"
    "\<forall>ra. render s1 = Some ra \<longrightarrow>
            lookup hp0 ra = None \<and>
            lookup hp1 ra = Some (Bytes (replicate (glyph_count w2 h2) 0))"
    "if data s1 = None \<or> render s1 = None
     then ret1 = joinReturn SCREEN_ERROR 0 \<and> returnError ret1 = SCREEN_ERROR
          \<and> returnError ret1 \<noteq> 0
     else ret1 = joinReturn SCREEN_SUCCESS 0 \<and> returnError ret1 = 0"
    using initScreen_alloc_aux[of s hp0 fl w2 h2]
    by (elim exE conjE) (rule that; assumption)
  from i(1) assms(1) have eq: "ret1 = ret" "s1 = s'" "hp1 = hp'" by simp_all
  have "\<not> (data s' = None \<or> render s' = None)"
  proof
    assume "data s' = None \<or> render s' = None"
    with i(7) have "returnError ret \<noteq> 0" unfolding eq by (simp add: returnError_join SCREEN_ERROR_neq)
    with assms(2) show False by simp
  qed
  then obtain da ra where p: "data s' = Some da" "render s' = Some ra" by auto
  have l: "lookup hp' da = Some (Bools (replicate (pixel_count (width s') (height s')) False))"
    "lookup hp' ra = Some (Bytes (replicate (glyph_count (width s') (height s')) 0))"
    using i(3-6) p unfolding eq by simp_all
  show "screen_ok s' hp'" using p l by (rule fresh_screen_ok(1))
  show "pixels_of s' hp' = replicate (pixel_count w2 h2) False"
    using fresh_screen_ok(2)[OF p l] i(3,4) unfolding eq by simp
  show "status s' = SCREEN_READY" "width s' = w2" "height s' = h2"
    using i(2-4) unfolding eq by simp_all
qed

lemma demo_resize:
  "resizeScreen (Some demo_screen) demo_heap 4 3
     = Inr (joinReturn SCREEN_SUCCESS 0,
            Some (demo_screen\<lparr>width := 4, height := 3, data := Some 2, render := Some 3\<rparr>),
            \<lparr>blocks = [None, None, Some (Bools (replicate 12 False)),
                       Some (Bytes (replicate 6 0))],
             outcomes = []\<rparr>)"
  by (simp add: resizeScreen_def demo_screen_def demo_heap_def free_m_def lookup_def
      calloc_m_def pixel_count_def glyph_count_def)

subsection \<open>Screens whose arrays are not allocated\<close>

text \<open>
  \<^verbatim>\<open>initScreen\<close> sets the status to \<^verbatim>\<open>SCREEN_READY\<close> before it allocates and
  reports a failed allocation through its return value only. A caller that goes on
  with such a screen makes \<^verbatim>\<open>setScreenPixel\<close> and \<^verbatim>\<open>getScreenPixel\<close> go through a
  null pointer at every coordinate inside the bounds, and \<^verbatim>\<open>renderScreen\<close> with
  them. A \<^verbatim>\<open>resizeScreen\<close> whose pixel allocation fails leaves such a screen
  too, and the next \<^verbatim>\<open>resizeScreen\<close> then frees nothing, since it frees both
  arrays only when the pixel pointer is not null.
\<close>

lemma initScreen_establishes:
  assumes "initScreen (Some s) hp fl w ht = (ret, Some s', hp')" "returnError ret = 0"
  shows "screen_ok s' hp' \<and> status s' = SCREEN_READY"
  using resize_success_state(1,2)[OF assms] by simp

lemma failed_initScreen_is_ready:
  assumes "initScreen (Some s) hp fl w ht = (ret, Some s', hp')" "take 1 (outcomes hp) = [False]"
  shows "status s' = SCREEN_READY \<and> data s' = None \<and> returnError ret = SCREEN_ERROR"
proof -
  obtain ret1 s1 hp1 where i:
    "initScreen (Some s) hp fl w ht = (ret1, Some s1, hp1)"
    "status s1 = SCREEN_READY"
    "(data s1 = None) = (take 1 (outcomes hp) = [False])"
    "if data s1 = None \<or> render s1 = None
     then ret1 = joinReturn SCREEN_ERROR 0 \<and> returnError ret1 = SCREEN_ERROR
          \<and> returnError ret1 \<noteq> 0
     else ret1 = joinReturn SCREEN_SUCCESS 0 \<and> returnError ret1 = 0"
    using initScreen_alloc_aux[of s hp fl w ht]
    by (elim exE conjE) (rule that; assumption)
  from i(1) assms(1) have eq: "ret1 = ret" "s1 = s'" by simp_all
  from i(3) assms(2) have d: "data s' = None" unfolding eq by simp
  with i(4) have "returnError ret = SCREEN_ERROR"
    unfolding eq by (simp add: returnError_join SCREEN_ERROR_neq)
  with i(2) d show ?thesis unfolding eq by simp
qed

lemma null_data_faults:
  assumes "status s = SCREEN_READY" "data s = None" "x < width s" "y < height s"
  shows "setScreenPixel (Some s) hp x y v = Inl MemFault"
    and "getScreenPixel (Some s) hp x y = Inl MemFault"
proof -
  have "\<not> (width s \<le> x \<or> height s \<le> y)" using assms(3,4) by (simp add: not_le)
  thus "setScreenPixel (Some s) hp x y v = Inl MemFault"
    and "getScreenPixel (Some s) hp x y = Inl MemFault"
    using assms(1,2) by (simp_all add: setScreenPixel_def getScreenPixel_def
        write_bool_def read_bool_def)
qed

lemma rep_lists:
  "replicate 6 False = [False, False, False, False, False, False]"
  "replicate 4 (0::u8) = [0, 0, 0, 0]"
  "replicate 6 (0::u8) = [0, 0, 0, 0, 0, 0]"
  by (simp_all add: numeral_eq_Suc)

lemma failed_reached:
  "initScreen (Some blank_screen) (empty_heap\<lparr>outcomes := [False]\<rparr>) 0 2 3
     = (joinReturn SCREEN_ERROR 0, Some failed_screen, failed_heap)"
  by (simp add: initScreen_def calloc_m_def blank_screen_def empty_heap_def failed_screen_def
      failed_heap_def pixel_count_def glyph_count_def rep_lists)

lemma fresh_reached:
  "initScreen (Some blank_screen) (empty_heap\<lparr>outcomes := [True, True, False]\<rparr>) 0 2 3
     = (joinReturn SCREEN_SUCCESS 0, Some demo_screen, fresh_heap)"
  by (simp add: initScreen_def calloc_m_def blank_screen_def empty_heap_def demo_screen_def
      fresh_heap_def pixel_count_def glyph_count_def rep_lists)

subsection \<open>Pixel access, rendering and resizing on well-formed screens\<close>

text \<open>
  On a screen with status \<^verbatim>\<open>SCREEN_READY\<close> whose two arrays are allocated, a pixel
  written inside the bounds is read back, \<^verbatim>\<open>renderScreen\<close> changes the glyph array
  only and is a function of the dimensions and the pixels, and \<^verbatim>\<open>resizeScreen\<close>
  frees both arrays and then does what \<^verbatim>\<open>initScreen\<close> does.
\<close>

lemma set_then_get:
  assumes "screen_ok s hp" "status s = SCREEN_READY" "x < width s" "y < height s"
  shows "\<exists>hp'. setScreenPixel (Some s) hp x y v = Inr (joinReturn SCREEN_SUCCESS 0, Some s, hp')
              \<and> getScreenPixel (Some s) hp' x y = Inr (v, Some s, hp')"
  using set_get_ok(1,2)[OF assms] by blast

lemma renderScreen_frame:
  assumes "screen_ok s hp" "status s = SCREEN_READY"
  shows "\<exists>hp'.
     renderScreen (Some s) hp = Inr (Some s, hp')
     \<and> pixels_of s hp' = pixels_of s hp
     \<and> outcomes hp' = outcomes hp
     \<and> (\<forall>a. render s \<noteq> Some a \<longrightarrow> lookup hp' a = lookup hp a)
     \<and> renderScreen (Some s) hp' = Inr (Some s, hp')
     \<and> (\<forall>t hq. screen_ok t hq \<and> status t = SCREEN_READY
                \<and> width t = width s \<and> height t = height s
                \<and> pixels_of t hq = pixels_of s hp \<longrightarrow>
            (\<exists>hq'. renderScreen (Some t) hq = Inr (Some t, hq')
                  \<and> cells_of t hq' = cells_of s hp'))"
proof -
  let ?hp' = "set_cells s hp (rendered_cells s hp)"
  note len = rendered_cells_length[of s hp]
  have 1: "renderScreen (Some s) hp = Inr (Some s, ?hp')"
    using assms by (rule renderScreen_ok)
  have 2: "pixels_of s ?hp' = pixels_of s hp" "outcomes ?hp' = outcomes hp"
    by (simp_all add: set_cells_ok[OF assms(1) len])
  have 3: "\<forall>a. render s \<noteq> Some a \<longrightarrow> lookup ?hp' a = lookup hp a"
    by (simp add: lookup_set_cells)
  have 4: "renderScreen (Some s) ?hp' = Inr (Some s, ?hp')"
    using assms by (rule renderScreen_twice)
  have 5: "\<exists>hq'. renderScreen (Some t) hq = Inr (Some t, hq') \<and> cells_of t hq' = cells_of s ?hp'"
    if t: "screen_ok t hq \<and> status t = SCREEN_READY \<and> width t = width s
           \<and> height t = height s \<and> pixels_of t hq = pixels_of s hp" for t hq
  proof -
    have "renderScreen (Some t) hq = Inr (Some t, set_cells t hq (rendered_cells t hq))"
      using t by (simp add: renderScreen_ok)
    moreover have "cells_of t (set_cells t hq (rendered_cells t hq)) = rendered_cells t hq"
      using t by (simp add: set_cells_ok(3) rendered_cells_length)
    moreover have "rendered_cells t hq = rendered_cells s hp"
      using t by (intro rendered_cells_cong) simp_all
    moreover have "cells_of s ?hp' = rendered_cells s hp"
      using assms(1) len by (rule set_cells_ok(3))
    ultimately show ?thesis by simp
  qed
  from 1 2 3 4 5 show ?thesis by blast
qed

lemma resizeScreen_clears:
  assumes "screen_ok s hp" "status s = SCREEN_READY"
  shows "\<exists>ret s' hp' hp0.
     resizeScreen (Some s) hp w2 h2 = Inr (ret, Some s', hp')
     \<and> bindF (free_m (data s) hp) (free_m (render s)) = Inr hp0
     \<and> initScreen (Some s) hp0 (flags s) w2 h2 = (ret, Some s', hp')
     \<and> (\<forall>a. data s = Some a \<or> render s = Some a \<longrightarrow> lookup hp' a = None)
     \<and> (returnError ret = 0 \<longrightarrow>
           width s' = w2 \<and> height s' = h2 \<and> status s' = SCREEN_READY
           \<and> screen_ok s' hp'
           \<and> pixels_of s' hp' = replicate (unat w2 * unat h2) False
           \<and> (\<forall>x y. getScreenPixel (Some s') hp' x y = Inr (False, Some s', hp'))
           \<and> (\<forall>x y v. x < w2 \<and> y < h2 \<longrightarrow>
                 (\<exists>hp''. setScreenPixel (Some s') hp' x y v
                            = Inr (joinReturn SCREEN_SUCCESS 0, Some s', hp'')
                        \<and> getScreenPixel (Some s') hp'' x y = Inr (v, Some s', hp'')))
           \<and> (\<forall>x y v. x \<ge> w2 \<or> y \<ge> h2 \<longrightarrow>
                 setScreenPixel (Some s') hp' x y v = Inr (0, Some s', hp')))"
proof -
  obtain hp0 where f:
    "bindF (free_m (data s) hp) (free_m (render s)) = Inr hp0"
    "\<forall>a. data s = Some a \<or> render s = Some a \<longrightarrow>
         a < length (blocks hp0) \<and> lookup hp0 a = None"
    using free_both[OF assms(1)] by (elim exE conjE) (rule that; assumption)
  obtain ret s' hp' where i: "initScreen (Some s) hp0 (flags s) w2 h2 = (ret, Some s', hp')"
    using initScreen_alloc_aux[of s hp0 "flags s" w2 h2] by (elim exE conjE) (rule that)
  have d: "data s \<noteq> None" using assms(1) by (auto elim: screen_okD)
  have r: "resizeScreen (Some s) hp w2 h2 = Inr (ret, Some s', hp')"
    using resize_is_init[OF assms(2) d f(1), of w2 h2] i by simp
  have rel: "\<forall>a. data s = Some a \<or> render s = Some a \<longrightarrow> lookup hp' a = None"
    using f(2) initScreen_keeps[OF i] by metis
  have ok: "width s' = w2 \<and> height s' = h2 \<and> status s' = SCREEN_READY
           \<and> screen_ok s' hp'
           \<and> pixels_of s' hp' = replicate (unat w2 * unat h2) False
           \<and> (\<forall>x y. getScreenPixel (Some s') hp' x y = Inr (False, Some s', hp'))
           \<and> (\<forall>x y v. x < w2 \<and> y < h2 \<longrightarrow>
                 (\<exists>hp''. setScreenPixel (Some s') hp' x y v
                            = Inr (joinReturn SCREEN_SUCCESS 0, Some s', hp'')
                        \<and> getScreenPixel (Some s') hp'' x y = Inr (v, Some s', hp'')))
           \<and> (\<forall>x y v. x \<ge> w2 \<or> y \<ge> h2 \<longrightarrow>
                 setScreenPixel (Some s') hp' x y v = Inr (0, Some s', hp'))"
    if e: "returnError ret = 0"
  proof -
    note st = resize_success_state[OF i e]
    have px: "pixels_of s' hp' = replicate (pixel_count (width s') (height s')) False"
      using st(3,4,5) by simp
    have g: "\<forall>x y. getScreenPixel (Some s') hp' x y = Inr (False, Some s', hp')"
      using getScreenPixel_ok[OF st(1,2)] blank_pixel_at[OF st(1) px] by simp
    have sg: "\<forall>x y v. x < w2 \<and> y < h2 \<longrightarrow>
                 (\<exists>hp''. setScreenPixel (Some s') hp' x y v
                            = Inr (joinReturn SCREEN_SUCCESS 0, Some s', hp'')
                        \<and> getScreenPixel (Some s') hp'' x y = Inr (v, Some s', hp''))"
      using set_get_ok(1,2)[OF st(1,2)] st(4,5) by blast
    have o: "\<forall>x y v. x \<ge> w2 \<or> y \<ge> h2 \<longrightarrow>
                 setScreenPixel (Some s') hp' x y v = Inr (0, Some s', hp')"
      using st(2,4,5) by (simp add: setScreenPixel_def)
    from st g sg o show ?thesis by (simp add: pixel_count_def)
  qed
  from r f(1) i rel ok show ?thesis by blast
qed

section \<open>The claims\<close>

text \<open>
  Claim C1. On a screen with status \<^verbatim>\<open>SCREEN_READY\<close>, \<^verbatim>\<open>renderScreen\<close> fills
  \<open>((width/2)+1) * ((height/3)+1)\<close> cells, and the cell at \<open>by*glyphWidth+bx\<close> is the
  pack of the six pixels at \<open>(bx*2+{0,1}, by*3+{0,1,2})\<close>, a pixel beyond the edge of
  the buffer counting as false. The code does not do this when the height is 255:
  on the screen one pixel wide and 255 pixels high whose only set pixel is
  \<open>(0, 0)\<close>, block row 85 covers the pixel rows 255 to 257, all beyond the edge, so
  that the claim gives the cell 0; \<^verbatim>\<open>renderScreen\<close> stores 8 there, because the
  rows 256 and 257 reach \<^verbatim>\<open>getScreenPixel\<close> as the bytes 0 and 1.
\<close>

theorem renderScreen_wraps_at_height_255:
  "screen_ok tall_screen tall_heap \<and> status tall_screen = SCREEN_READY
   \<and> (\<exists>hp'. renderScreen (Some tall_screen) tall_heap = Inr (Some tall_screen, hp')
          \<and> length (cells_of tall_screen hp') = 86
          \<and> cells_of tall_screen hp' ! (85 * 1 + 0) = 8)
   \<and> spec_cell tall_screen tall_heap 0 85 = 0"
proof -
  have b: "(0::nat) < unat (width tall_screen) div 2 + 1"
    "(85::nat) < unat (height tall_screen) div 3 + 1"
    by (simp_all add: tall_screen_def)
  have w: "unat (width tall_screen) div 2 + 1 = 1" "unat (height tall_screen) div 3 + 1 = 86"
    by (simp_all add: tall_screen_def)
  from renderScreen_cells[OF tall_ok b] show ?thesis
    unfolding w tall_cell using tall_ok tall_spec by simp
qed

text \<open>
  Claim C2. \<^verbatim>\<open>boolsToInt\<close> maps an array of six booleans to the sum of
  \<open>arr[i] * 2^(5-i)\<close>, so that \<open>arr[0]\<close> is bit 5 and \<open>arr[5]\<close> is bit 0; it is a
  bijection from the arrays of six booleans onto the bytes below 64; six times
  false gives 0 and six times true gives 63.
\<close>

theorem boolsToInt_bijection:
  "(\<forall>arr. length arr = 6 \<longrightarrow>
      unat (boolsToInt arr) = (\<Sum>i<6. of_bool (arr ! i) * 2 ^ (5 - i)))
   \<and> bij_betw boolsToInt {arr. length arr = 6} {w. w < 64}
   \<and> boolsToInt (replicate 6 False) = 0
   \<and> boolsToInt (replicate 6 True) = 63"
proof (intro conjI allI impI)
  fix arr :: "bool list"
  assume "length arr = 6"
  thus "unat (boolsToInt arr) = (\<Sum>i<6. of_bool (arr ! i) * 2 ^ (5 - i))"
    by (rule sum_len6)
next
  show "bij_betw boolsToInt {arr. length arr = 6} {w. w < 64}"
    unfolding bij_betw_def using inj6 img6 by (rule conjI)
next
  show "boolsToInt (replicate 6 False) = 0"
    unfolding rep6 boolsToInt_list by simp
next
  show "boolsToInt (replicate 6 True) = 63"
    unfolding rep6 boolsToInt_list by simp
qed

text \<open>The array \<open>101101\<close> packs to 45, a byte below 64.\<close>

theorem boolsToInt_bijection_witness:
  "length [True, False, True, True, False, True] = 6
   \<and> unat (boolsToInt [True, False, True, True, False, True]) = 45
   \<and> boolsToInt [True, False, True, True, False, True] < 64"
proof -
  have l: "length [True, False, True, True, False, True] = 6" by simp
  have "unat (boolsToInt [True, False, True, True, False, True])
      = (\<Sum>i<6. of_bool ([True, False, True, True, False, True] ! i) * 2 ^ (5 - i))"
    using boolsToInt_bijection l by blast
  also have "\<dots> = 45"
    unfolding set6 by simp
  finally have v: "unat (boolsToInt [True, False, True, True, False, True]) = 45" .
  have "boolsToInt [True, False, True, True, False, True] \<in> boolsToInt ` {arr. length arr = 6}"
    using l by blast
  hence "boolsToInt [True, False, True, True, False, True] < 64"
    using boolsToInt_bijection unfolding bij_betw_def by blast
  with l v show ?thesis by blast
qed

text \<open>
  Claim C3. On every screen with status \<^verbatim>\<open>SCREEN_READY\<close>, for every coordinate
  with \<open>x < width\<close> and \<open>y < height\<close> and every boolean \<open>v\<close>,
  \<^verbatim>\<open>setScreenPixel(scr, x, y, v)\<close> followed by \<^verbatim>\<open>getScreenPixel(scr, x, y)\<close>
  returns \<open>v\<close>. The code does not do this on the screen a failed \<^verbatim>\<open>initScreen\<close>
  leaves: \<^verbatim>\<open>initScreen(&scr, 0, 2, 3)\<close> whose \<^verbatim>\<open>calloc\<close> of the pixel array returns
  \<^verbatim>\<open>NULL\<close> reports \<^verbatim>\<open>SCREEN_ERROR\<close> and leaves the status \<^verbatim>\<open>SCREEN_READY\<close>
  with a null pixel pointer, and on that screen \<^verbatim>\<open>setScreenPixel\<close> and
  \<^verbatim>\<open>getScreenPixel\<close> at \<open>(0, 0)\<close>, inside the bounds, go through the null pointer.
\<close>

theorem setScreenPixel_faults_after_failed_initScreen:
  "initScreen (Some blank_screen) (empty_heap\<lparr>outcomes := [False]\<rparr>) 0 2 3
     = (joinReturn SCREEN_ERROR 0, Some failed_screen, failed_heap)
   \<and> status failed_screen = SCREEN_READY
   \<and> (0::u8) < width failed_screen \<and> (0::u8) < height failed_screen
   \<and> setScreenPixel (Some failed_screen) failed_heap 0 0 True = Inl MemFault
   \<and> getScreenPixel (Some failed_screen) failed_heap 0 0 = Inl MemFault"
proof -
  have r: "status failed_screen = SCREEN_READY" "data failed_screen = None"
    "(0::u8) < width failed_screen" "(0::u8) < height failed_screen"
    by (simp_all add: failed_screen_def)
  from failed_reached r null_data_faults[OF r] show ?thesis
    by simp
qed

text \<open>
  Claim C4. On a screen with status \<^verbatim>\<open>SCREEN_READY\<close>, for every coordinate with
  \<open>x \<ge> width\<close> or \<open>y \<ge> height\<close>, \<^verbatim>\<open>getScreenPixel\<close> returns false whatever the
  heap holds, and \<^verbatim>\<open>setScreenPixel\<close> leaves the struct and the heap as they are and
  returns 0, which \<^verbatim>\<open>returnError\<close> decodes as no error.
\<close>

theorem out_of_range_access:
  assumes "status s = SCREEN_READY" "x \<ge> width s \<or> y \<ge> height s"
  shows "getScreenPixel (Some s) hp x y = Inr (False, Some s, hp)
       \<and> setScreenPixel (Some s) hp x y v = Inr (0, Some s, hp)
       \<and> returnError 0 = 0"
proof -
  have "returnError 0 = 0"
    by (simp add: returnError_def SCREEN_SUCCESS_BIT_def SCREEN_SUCCESS_def)
  with assms show ?thesis
    by (simp add: getScreenPixel_def setScreenPixel_def)
qed

text \<open>
  On the 2 by 3 screen: a read at column 2 and a write at row 3, next to the read of
  a pixel inside the buffer.
\<close>

theorem out_of_range_access_witness:
  "status demo_screen = SCREEN_READY
   \<and> getScreenPixel (Some demo_screen) demo_heap 2 0 = Inr (False, Some demo_screen, demo_heap)
   \<and> setScreenPixel (Some demo_screen) demo_heap 0 3 True = Inr (0, Some demo_screen, demo_heap)
   \<and> getScreenPixel (Some demo_screen) demo_heap 0 0 = Inr (True, Some demo_screen, demo_heap)"
proof -
  have a: "(2::u8) \<ge> width demo_screen \<or> (0::u8) \<ge> height demo_screen"
    by (simp add: demo_screen_def)
  have b: "(0::u8) \<ge> width demo_screen \<or> (3::u8) \<ge> height demo_screen"
    by (simp add: demo_screen_def)
  have c: "getScreenPixel (Some demo_screen) demo_heap 0 0 = Inr (True, Some demo_screen, demo_heap)"
    by (simp add: getScreenPixel_def demo_screen_def demo_heap_def read_bool_def lookup_def)
  from out_of_range_access[OF demo_ok(2) a, of demo_heap True]
       out_of_range_access[OF demo_ok(2) b, of demo_heap True] demo_ok(2) c
  show ?thesis by blast
qed

text \<open>
  Claim C5. For a non-null screen pointer, \<^verbatim>\<open>initScreen\<close> allocates a pixel array of
  \<open>width * height\<close> zeros and a glyph array of \<open>((width/2)+1) * ((height/3)+1)\<close>
  zeros; the status byte it returns is \<^verbatim>\<open>SCREEN_ERROR\<close> when either allocation
  fails and \<^verbatim>\<open>SCREEN_SUCCESS\<close> when both succeed, so that a failure always
  reaches the caller as an error.
\<close>

theorem initScreen_allocation:
  "\<exists>ret s' hp'.
     initScreen (Some s) hp fl w ht = (ret, Some s', hp')
     \<and> status s' = SCREEN_READY \<and> flags s' = fl \<and> width s' = w \<and> height s' = ht
     \<and> (data s' = None \<longleftrightarrow> take 1 (outcomes hp) = [False])
     \<and> (render s' = None \<longleftrightarrow> take 1 (drop 1 (outcomes hp)) = [False])
     \<and> (\<forall>da. data s' = Some da \<longrightarrow>
            lookup hp da = None \<and>
            lookup hp' da = Some (Bools (replicate (unat w * unat ht) False)))
     \<and> (\<forall>ra. render s' = Some ra \<longrightarrow>
            lookup hp ra = None \<and>
            lookup hp' ra =
              Some (Bytes (replicate ((unat w div 2 + 1) * (unat ht div 3 + 1)) 0)))
     \<and> returnData ret = 0
     \<and> (if data s' = None \<or> render s' = None
         then ret = joinReturn SCREEN_ERROR 0 \<and> returnError ret = SCREEN_ERROR
              \<and> returnError ret \<noteq> 0
         else ret = joinReturn SCREEN_SUCCESS 0 \<and> returnError ret = 0)"
  using initScreen_alloc_aux[of s hp fl w ht]
  unfolding glyph_count_def pixel_count_def .

text \<open>
  A 2 by 3 screen initialised on the empty heap, once with a glyph allocation that
  fails and once with both allocations succeeding.
\<close>

theorem initScreen_allocation_witness:
  "returnError (fst (initScreen (Some blank_screen) (empty_heap\<lparr>outcomes := [True, False]\<rparr>) 0 2 3))
     = SCREEN_ERROR
   \<and> returnError (fst (initScreen (Some blank_screen) empty_heap 0 2 3)) = 0"
proof -
  obtain ret s' hp' where a:
    "initScreen (Some blank_screen) (empty_heap\<lparr>outcomes := [True, False]\<rparr>) 0 2 3
       = (ret, Some s', hp')"
    "(render s' = None) = (take 1 (drop 1 (outcomes (empty_heap\<lparr>outcomes := [True, False]\<rparr>))) = [False])"
    "if data s' = None \<or> render s' = None
     then ret = joinReturn SCREEN_ERROR 0 \<and> returnError ret = SCREEN_ERROR \<and> returnError ret \<noteq> 0
     else ret = joinReturn SCREEN_SUCCESS 0 \<and> returnError ret = 0"
    using initScreen_allocation[of blank_screen "empty_heap\<lparr>outcomes := [True, False]\<rparr>" 0 2 3]
    by (elim exE conjE) (rule that; assumption)
  from a(2) have "render s' = None" by simp
  with a(3) have "returnError ret = SCREEN_ERROR" by (simp add: returnError_join SCREEN_ERROR_neq)
  with a(1) have e: "returnError (fst (initScreen (Some blank_screen)
      (empty_heap\<lparr>outcomes := [True, False]\<rparr>) 0 2 3)) = SCREEN_ERROR" by simp
  obtain ret2 s2 hp2 where b:
    "initScreen (Some blank_screen) empty_heap 0 2 3 = (ret2, Some s2, hp2)"
    "(data s2 = None) = (take 1 (outcomes empty_heap) = [False])"
    "(render s2 = None) = (take 1 (drop 1 (outcomes empty_heap)) = [False])"
    "if data s2 = None \<or> render s2 = None
     then ret2 = joinReturn SCREEN_ERROR 0 \<and> returnError ret2 = SCREEN_ERROR \<and> returnError ret2 \<noteq> 0
     else ret2 = joinReturn SCREEN_SUCCESS 0 \<and> returnError ret2 = 0"
    using initScreen_allocation[of blank_screen empty_heap 0 2 3]
    by (elim exE conjE) (rule that; assumption)
  from b(2,3) have "data s2 \<noteq> None" "render s2 \<noteq> None" by (simp_all add: empty_heap_def)
  with b(4) have "returnError ret2 = 0" by (simp add: returnError_join)
  with b(1) have "returnError (fst (initScreen (Some blank_screen) empty_heap 0 2 3)) = 0"
    by simp
  with e show ?thesis by simp
qed

text \<open>
  Claim C6. After a successful \<^verbatim>\<open>resizeScreen(scr, w2, h2)\<close> on a screen that was
  initialised before, the dimensions are \<open>w2\<close> and \<open>h2\<close>, all storage the screen
  held before has been released, and every pixel reads false. The code does not
  release the storage in this run: \<^verbatim>\<open>initScreen(&scr, 0, 2, 3)\<close> succeeds; a
  \<^verbatim>\<open>resizeScreen(&scr, 4, 3)\<close> whose \<^verbatim>\<open>calloc\<close> of the pixel array fails frees
  both old arrays, reports \<^verbatim>\<open>SCREEN_ERROR\<close> and leaves a null pixel pointer and a
  new glyph array at address 2; the following \<^verbatim>\<open>resizeScreen(&scr, 2, 3)\<close>
  succeeds, but frees nothing because the pixel pointer is null, so that the glyph
  array at address 2 is still allocated afterwards while the screen points to the
  new arrays at 3 and 4.
\<close>

theorem resizeScreen_leaks_after_failed_resize:
  "initScreen (Some blank_screen) (empty_heap\<lparr>outcomes := [True, True, False]\<rparr>) 0 2 3
     = (joinReturn SCREEN_SUCCESS 0, Some demo_screen, fresh_heap)
   \<and> resizeScreen (Some demo_screen) fresh_heap 4 3
     = Inr (joinReturn SCREEN_ERROR 0, Some half_screen, half_heap)
   \<and> render half_screen = Some 2
   \<and> lookup half_heap 2 = Some (Bytes [0, 0, 0, 0, 0, 0])
   \<and> resizeScreen (Some half_screen) half_heap 2 3
     = Inr (joinReturn SCREEN_SUCCESS 0, Some leaked_screen, leaked_heap)
   \<and> returnError (joinReturn SCREEN_SUCCESS 0) = 0
   \<and> lookup leaked_heap 2 = Some (Bytes [0, 0, 0, 0, 0, 0])
   \<and> data leaked_screen = Some 3 \<and> render leaked_screen = Some 4"
proof -
  have 1: "resizeScreen (Some demo_screen) fresh_heap 4 3
     = Inr (joinReturn SCREEN_ERROR 0, Some half_screen, half_heap)"
    by (simp add: resizeScreen_def demo_screen_def fresh_heap_def half_screen_def half_heap_def
        free_m_def lookup_def calloc_m_def pixel_count_def glyph_count_def rep_lists)
  have 2: "resizeScreen (Some half_screen) half_heap 2 3
     = Inr (joinReturn SCREEN_SUCCESS 0, Some leaked_screen, leaked_heap)"
    by (simp add: resizeScreen_def half_screen_def half_heap_def leaked_screen_def
        leaked_heap_def calloc_m_def pixel_count_def glyph_count_def rep_lists)
  have 3: "render half_screen = Some 2" "lookup half_heap 2 = Some (Bytes [0, 0, 0, 0, 0, 0])"
    "lookup leaked_heap 2 = Some (Bytes [0, 0, 0, 0, 0, 0])"
    "data leaked_screen = Some 3" "render leaked_screen = Some 4"
    by (simp_all add: half_screen_def half_heap_def leaked_heap_def leaked_screen_def lookup_def)
  have 4: "returnError (joinReturn SCREEN_SUCCESS 0) = 0" by (simp add: returnError_join)
  from fresh_reached 1 2 3 4 show ?thesis by simp
qed

text \<open>
  Claim C7. On every screen with status \<^verbatim>\<open>SCREEN_READY\<close>, \<^verbatim>\<open>renderScreen\<close>
  changes the glyph array only and computes it from the pixels, so that two calls
  give the same glyph array. The code does not do this on the screen a failed
  \<^verbatim>\<open>initScreen\<close> leaves: after \<^verbatim>\<open>initScreen(&scr, 0, 2, 3)\<close> whose \<^verbatim>\<open>calloc\<close> of
  the pixel array returns \<^verbatim>\<open>NULL\<close> the status is \<^verbatim>\<open>SCREEN_READY\<close>, and
  \<^verbatim>\<open>renderScreen\<close> reads the pixel \<open>(0, 0)\<close> through the null pointer before it
  has stored a single cell.
\<close>

theorem renderScreen_faults_after_failed_initScreen:
  "initScreen (Some blank_screen) (empty_heap\<lparr>outcomes := [False]\<rparr>) 0 2 3
     = (joinReturn SCREEN_ERROR 0, Some failed_screen, failed_heap)
   \<and> status failed_screen = SCREEN_READY
   \<and> renderScreen (Some failed_screen) failed_heap = Inl MemFault"
proof -
  have r: "status failed_screen = SCREEN_READY" "data failed_screen = None"
    "(0::u8) < width failed_screen" "(0::u8) < height failed_screen"
    by (simp_all add: failed_screen_def)
  have g: "getScreenPixel (Some failed_screen) failed_heap 0 0 = Inl MemFault"
    using r by (rule null_data_faults(2))
  have c: "renderCell gw 0 0 (Some failed_screen, failed_heap) = Inl MemFault" for gw
    by (simp add: renderCell_def g)
  have u: "unat (width failed_screen div 2 + 1) = 2" "unat (height failed_screen div 3 + 1) = 2"
    by (simp_all add: failed_screen_def)
  have l: "[0..<2] = [0, 1]" by (simp add: upt_rec)
  have "renderScreen (Some failed_screen) failed_heap = Inl MemFault"
    by (simp add: renderScreen_def Let_def u l c)
  with failed_reached r(1) show ?thesis by simp
qed

text \<open>
  Claim C8. For a non-null screen whose status is not \<^verbatim>\<open>SCREEN_READY\<close>,
  \<^verbatim>\<open>getScreenPixel\<close> initialises the screen again with the size 20 by 20 and
  returns false without reading a pixel, and \<^verbatim>\<open>setScreenPixel\<close> initialises it
  again with the same size and returns the status \<^verbatim>\<open>SCREEN_ERROR\<close> without writing
  the pixel: both leave exactly the state of \<^verbatim>\<open>initScreen(scr, 0, 20, 20)\<close>, in which
  every block allocated before is as it was and the new pixel array is all zeros.
\<close>

theorem not_ready_reinit:
  assumes "status s \<noteq> SCREEN_READY"
  shows "\<exists>ret s' hp'.
     initScreen (Some s) hp 0 20 20 = (ret, Some s', hp')
     \<and> getScreenPixel (Some s) hp x y = Inr (False, Some s', hp')
     \<and> setScreenPixel (Some s) hp x y v = Inr (joinReturn SCREEN_ERROR 0, Some s', hp')
     \<and> returnError (joinReturn SCREEN_ERROR 0) = SCREEN_ERROR
     \<and> status s' = SCREEN_READY \<and> flags s' = 0 \<and> width s' = 20 \<and> height s' = 20
     \<and> (\<forall>a. a < length (blocks hp) \<longrightarrow> lookup hp' a = lookup hp a)
     \<and> (\<forall>da. data s' = Some da \<longrightarrow> lookup hp' da = Some (Bools (replicate 400 False)))"
proof -
  obtain ret s' hp' where i:
    "initScreen (Some s) hp 0 20 20 = (ret, Some s', hp')"
    "status s' = SCREEN_READY" "flags s' = 0" "width s' = 20" "height s' = 20"
    "\<forall>da. data s' = Some da \<longrightarrow>
            lookup hp da = None \<and>
            lookup hp' da = Some (Bools (replicate (pixel_count 20 20) False))"
    using initScreen_alloc_aux[of s hp 0 20 20]
    by (elim exE conjE) (rule that; assumption)
  have g: "getScreenPixel (Some s) hp x y = Inr (False, Some s', hp')"
    using assms i(1) by (simp add: getScreenPixel_def)
  have st: "setScreenPixel (Some s) hp x y v = Inr (joinReturn SCREEN_ERROR 0, Some s', hp')"
    using assms i(1) by (simp add: setScreenPixel_def)
  have e: "returnError (joinReturn SCREEN_ERROR 0) = SCREEN_ERROR"
    by (simp add: returnError_join SCREEN_ERROR_neq)
  have k: "\<forall>a. a < length (blocks hp) \<longrightarrow> lookup hp' a = lookup hp a"
    using initScreen_keeps[OF i(1)] by blast
  have z: "\<forall>da. data s' = Some da \<longrightarrow> lookup hp' da = Some (Bools (replicate 400 False))"
    using i(6) by (simp add: count_20)
  from i(1-5) g st e k z show ?thesis by blast
qed

text \<open>
  The struct before initialisation, read and written at \<open>(3, 4)\<close>: the read gives
  false, the write an error, and the screen is 20 by 20 afterwards.
\<close>

theorem not_ready_reinit_witness:
  "status blank_screen \<noteq> SCREEN_READY
   \<and> (\<exists>s' hp'. getScreenPixel (Some blank_screen) empty_heap 3 4 = Inr (False, Some s', hp')
         \<and> setScreenPixel (Some blank_screen) empty_heap 3 4 True
             = Inr (joinReturn SCREEN_ERROR 0, Some s', hp')
         \<and> width s' = 20 \<and> height s' = 20)"
proof -
  have n: "status blank_screen \<noteq> SCREEN_READY"
    by (simp add: blank_screen_def SCREEN_READY_def)
  obtain ret s' hp' where
    "getScreenPixel (Some blank_screen) empty_heap 3 4 = Inr (False, Some s', hp')"
    "setScreenPixel (Some blank_screen) empty_heap 3 4 True
             = Inr (joinReturn SCREEN_ERROR 0, Some s', hp')"
    "width s' = 20" "height s' = 20"
    using not_ready_reinit[OF n, of empty_heap 3 4 True]
    by (elim exE conjE) (rule that; assumption)
  with n show ?thesis by blast
qed

text \<open>
  Claim C9. Every byte that \<^verbatim>\<open>renderScreen\<close> stores in the glyph array is at most
  63: after it has run on a screen with status \<^verbatim>\<open>SCREEN_READY\<close> whose arrays are
  allocated, every cell is an index into the 64 entries of \<^verbatim>\<open>char_map\<close>, and
  \<^verbatim>\<open>printScreen\<close> reads the table within its bounds.
\<close>

theorem rendered_cells_index_char_map:
  assumes "screen_ok s hp" "status s = SCREEN_READY"
  shows "\<exists>hp'.
     renderScreen (Some s) hp = Inr (Some s, hp')
     \<and> length (cells_of s hp') = (unat (width s) div 2 + 1) * (unat (height s) div 3 + 1)
     \<and> (\<forall>c\<in>set (cells_of s hp'). c \<le> 63 \<and> unat c < length char_map)
     \<and> length char_map = 64
     \<and> (\<exists>rows. printScreen (Some s) hp' = Inr rows)"
proof -
  let ?hp' = "set_cells s hp (rendered_cells s hp)"
  note len = rendered_cells_length[of s hp]
  have 1: "renderScreen (Some s) hp = Inr (Some s, ?hp')"
    using assms by (rule renderScreen_ok)
  have ok': "screen_ok s ?hp'" using assms(1) len by (rule set_cells_ok(1))
  have c: "cells_of s ?hp' = rendered_cells s hp" using assms(1) len by (rule set_cells_ok(3))
  have 2: "length (cells_of s ?hp') = (unat (width s) div 2 + 1) * (unat (height s) div 3 + 1)"
    unfolding c len glyph_count_def ..
  have lt: "\<forall>c\<in>set (cells_of s ?hp'). c < 64"
    unfolding c using rendered_cells_lt by blast
  have 3: "\<forall>c\<in>set (cells_of s ?hp'). c \<le> 63 \<and> unat c < length char_map"
  proof
    fix c assume "c \<in> set (cells_of s ?hp')"
    hence "c < 64" using lt by blast
    hence "unat c < 64" by (simp add: word_less_nat_alt)
    thus "c \<le> 63 \<and> unat c < length char_map"
      by (simp add: word_le_nat_alt char_map_length)
  qed
  have 4: "\<exists>rows. printScreen (Some s) ?hp' = Inr rows"
    using printScreen_ok[OF ok' lt] by blast
  from 1 2 3 4 char_map_length show ?thesis by blast
qed

text \<open>
  The 2 by 3 screen: four cells after rendering, the first of them at most 63, and
  \<^verbatim>\<open>printScreen\<close> produces its rows.
\<close>

theorem rendered_cells_index_char_map_witness:
  "screen_ok demo_screen demo_heap \<and> status demo_screen = SCREEN_READY
   \<and> (\<exists>hp' rows. renderScreen (Some demo_screen) demo_heap = Inr (Some demo_screen, hp')
          \<and> length (cells_of demo_screen hp') = 4
          \<and> cells_of demo_screen hp' ! 0 \<le> 63
          \<and> printScreen (Some demo_screen) hp' = Inr rows)"
proof -
  obtain hp' rows where h:
    "renderScreen (Some demo_screen) demo_heap = Inr (Some demo_screen, hp')"
    "length (cells_of demo_screen hp')
       = (unat (width demo_screen) div 2 + 1) * (unat (height demo_screen) div 3 + 1)"
    "\<forall>c\<in>set (cells_of demo_screen hp'). c \<le> 63 \<and> unat c < length char_map"
    "printScreen (Some demo_screen) hp' = Inr rows"
    using rendered_cells_index_char_map[OF demo_ok]
    by (elim exE conjE) (rule that; assumption)
  from h(2) have l: "length (cells_of demo_screen hp') = 4"
    by (simp add: demo_screen_def)
  hence "cells_of demo_screen hp' ! 0 \<in> set (cells_of demo_screen hp')"
    by simp
  with h(3) have "cells_of demo_screen hp' ! 0 \<le> 63" by blast
  with h(1,4) l demo_ok show ?thesis by blast
qed

text \<open>
  Claim C10. For every status byte \<open>s\<close> and data byte \<open>d\<close>, \<^verbatim>\<open>returnData\<close> of
  \<^verbatim>\<open>joinReturn(s, d)\<close> is \<open>d\<close>, and \<^verbatim>\<open>returnError\<close> of it is 0 when \<open>s\<close> is
  \<^verbatim>\<open>SCREEN_SUCCESS\<close> and \<open>s\<close> otherwise; a value whose status byte is 0, such as
  the plain 0 that \<^verbatim>\<open>setScreenPixel\<close> returns for a coordinate out of range,
  decodes to 0 as well.
\<close>

theorem joinReturn_decode:
  "returnData (joinReturn s d) = d
   \<and> returnError (joinReturn s d) = (if s = SCREEN_SUCCESS then 0 else s)
   \<and> returnError (joinReturn 0 d) = 0
   \<and> returnError 0 = 0"
proof -
  have "returnError (joinReturn 0 d) = 0"
    by (simp add: returnError_join SCREEN_SUCCESS_def)
  moreover have "returnError 0 = 0"
    by (simp add: returnError_def SCREEN_SUCCESS_BIT_def SCREEN_SUCCESS_def)
  ultimately show ?thesis
    by (simp add: returnData_join returnError_join)
qed

text \<open>A success and an error value with data byte 7.\<close>

theorem joinReturn_decode_witness:
  "returnData (joinReturn SCREEN_SUCCESS 7) = 7
   \<and> returnError (joinReturn SCREEN_SUCCESS 7) = 0
   \<and> returnError (joinReturn SCREEN_ERROR 7) = SCREEN_ERROR"
  using joinReturn_decode[of SCREEN_SUCCESS 7] joinReturn_decode[of SCREEN_ERROR 7]
  by (simp add: SCREEN_SUCCESS_def SCREEN_ERROR_def)

end
